theory Spec2Isabelle
  imports Complex_Main
begin

section \<open>Python values and strings\<close>

text \<open>
  The module \<^verbatim>\<open>nova_act_automation/json_parser.py\<close> works on the values that
  \<^verbatim>\<open>json.load\<close> produces: \<^verbatim>\<open>None\<close>, booleans, integers, floats, strings, lists and
  dictionaries.  A Python \<^verbatim>\<open>str\<close> is modelled as a \<^typ>\<open>string\<close>, one \<^typ>\<open>char\<close> per
  code point (code points below 256).  A dictionary is an association list in insertion order.
\<close>

datatype pyfloat = NaN | NegInf | Finite real | PosInf

datatype json =
    JNull
  | JBool bool
  | JInt int
  | JFloat pyfloat
  | JStr string
  | JObj "(string \<times> json) list"
  | JArr "json list"

type_synonym dict = "(string \<times> json) list"

subsection \<open>Dictionaries\<close>

text \<open>\<^verbatim>\<open>d[k] = v\<close>: an existing key keeps its position and takes the new value, a new key goes last.\<close>

fun dict_set :: "dict \<Rightarrow> string \<Rightarrow> json \<Rightarrow> dict" where
  "dict_set [] k v = [(k, v)]"
| "dict_set ((k', v') # d) k v = (if k' = k then (k, v) # d else (k', v') # dict_set d k v)"

text \<open>\<^verbatim>\<open>dict(items)\<close>: the pairs are stored from left to right.\<close>

fun dict_extend :: "dict \<Rightarrow> (string \<times> json) list \<Rightarrow> dict" where
  "dict_extend d [] = d"
| "dict_extend d ((k, v) # items) = dict_extend (dict_set d k v) items"

definition dict_of :: "(string \<times> json) list \<Rightarrow> dict" where
  "dict_of items = dict_extend [] items"

text \<open>\<^verbatim>\<open>k in d\<close> and \<^verbatim>\<open>d[k]\<close> (the latter only evaluated where the key is present).\<close>

definition has_key :: "dict \<Rightarrow> string \<Rightarrow> bool" where
  "has_key d k = (k \<in> set (map fst d))"

definition lookup :: "dict \<Rightarrow> string \<Rightarrow> json option" where
  "lookup d k = map_of d k"

subsection \<open>String operations\<close>

text \<open>\<^verbatim>\<open>str.lower\<close> below code point 256: the letters A to Z, and the capital letters from
  \<^verbatim>\<open>U+00C0\<close> to \<^verbatim>\<open>U+00DE\<close> (the multiplication sign \<^verbatim>\<open>U+00D7\<close> is not one), go to the
  code point 32 places further; every other character stays.\<close>

definition upper_chars :: "char list" where
  "upper_chars =
     ''ABCDEFGHIJKLMNOPQRSTUVWXYZ'' @
       [CHR 0xC0, CHR 0xC1, CHR 0xC2, CHR 0xC3, CHR 0xC4, CHR 0xC5, CHR 0xC6, CHR 0xC7,
        CHR 0xC8, CHR 0xC9, CHR 0xCA, CHR 0xCB, CHR 0xCC, CHR 0xCD, CHR 0xCE, CHR 0xCF,
        CHR 0xD0, CHR 0xD1, CHR 0xD2, CHR 0xD3, CHR 0xD4, CHR 0xD5, CHR 0xD6, CHR 0xD8,
        CHR 0xD9, CHR 0xDA, CHR 0xDB, CHR 0xDC, CHR 0xDD, CHR 0xDE]"

definition lower_chars :: "char list" where
  "lower_chars =
     ''abcdefghijklmnopqrstuvwxyz'' @
       [CHR 0xE0, CHR 0xE1, CHR 0xE2, CHR 0xE3, CHR 0xE4, CHR 0xE5, CHR 0xE6, CHR 0xE7,
        CHR 0xE8, CHR 0xE9, CHR 0xEA, CHR 0xEB, CHR 0xEC, CHR 0xED, CHR 0xEE, CHR 0xEF,
        CHR 0xF0, CHR 0xF1, CHR 0xF2, CHR 0xF3, CHR 0xF4, CHR 0xF5, CHR 0xF6, CHR 0xF8,
        CHR 0xF9, CHR 0xFA, CHR 0xFB, CHR 0xFC, CHR 0xFD, CHR 0xFE]"

definition lower_char :: "char \<Rightarrow> char" where
  "lower_char c = (case map_of (zip upper_chars lower_chars) c of Some l \<Rightarrow> l | None \<Rightarrow> c)"

definition lower :: "string \<Rightarrow> string" where
  "lower s = map lower_char s"

text \<open>\<^verbatim>\<open>s.startswith(p)\<close> and the substring test \<^verbatim>\<open>a in b\<close>.\<close>

fun startswith :: "string \<Rightarrow> string \<Rightarrow> bool" where
  "startswith s [] = True"
| "startswith [] (p # ps) = False"
| "startswith (c # s) (p # ps) = (c = p \<and> startswith s ps)"

fun str_in :: "string \<Rightarrow> string \<Rightarrow> bool" where
  "str_in a [] = (a = [])"
| "str_in a (c # b) = (startswith (c # b) a \<or> str_in a b)"

text \<open>The characters that \<^verbatim>\<open>str.isspace\<close> accepts, below code point 256.\<close>

definition is_space :: "char \<Rightarrow> bool" where
  "is_space c = (c \<in> set [CHR '' '', CHR 0x09, CHR 0x0A, CHR 0x0B, CHR 0x0C, CHR 0x0D,
                           CHR 0x1C, CHR 0x1D, CHR 0x1E, CHR 0x1F, CHR 0x85, CHR 0xA0])"

definition strip :: "string \<Rightarrow> string" where
  "strip s = rev (dropWhile is_space (rev (dropWhile is_space s)))"

definition is_digit :: "char \<Rightarrow> bool" where
  "is_digit c = (c \<in> set ''0123456789'')"

section \<open>The alias table\<close>

text \<open>\<^verbatim>\<open>_get_field_mappings\<close>: the nine canonical fields with their aliases, in the order of the
  dictionary literal.\<close>

definition field_mappings :: "(string \<times> string list) list" where
  "field_mappings =
    [(''shipper_name'',
        [''shipper_name'', ''shipper'', ''sender_name'', ''sender'', ''from_name'', ''from'',
         ''origin_name'', ''origin_company'', ''shipping_company'', ''company_name'']),
     (''shipper_address'',
        [''shipper_address'', ''shipper_addr'', ''sender_address'', ''sender_addr'',
         ''from_address'', ''from_addr'', ''origin_address'', ''origin_addr'', ''pickup_address'']),
     (''recipient_name'',
        [''recipient_name'', ''recipient'', ''receiver_name'', ''receiver'', ''to_name'', ''to'',
         ''destination_name'', ''dest_name'', ''customer_name'', ''consignee_name'', ''consignee'']),
     (''recipient_address'',
        [''recipient_address'', ''recipient_addr'', ''receiver_address'', ''receiver_addr'',
         ''to_address'', ''to_addr'', ''destination_address'', ''dest_address'',
         ''delivery_address'']),
     (''package_weight'',
        [''package_weight'', ''weight'', ''pkg_weight'', ''total_weight'', ''gross_weight'',
         ''shipment_weight'', ''parcel_weight'', ''item_weight'']),
     (''package_dimensions'',
        [''package_dimensions'', ''dimensions'', ''pkg_dimensions'', ''size'', ''measurements'',
         ''length_width_height'', ''lwh'', ''box_size'']),
     (''tracking_number'',
        [''tracking_number'', ''tracking_no'', ''tracking_id'', ''track_number'',
         ''reference_number'', ''reference_no'', ''shipment_id'', ''order_number'', ''order_id'',
         ''awb_number'']),
     (''shipping_date'',
        [''shipping_date'', ''ship_date'', ''pickup_date'', ''dispatch_date'', ''send_date'',
         ''departure_date'', ''collection_date'', ''scheduled_date'']),
     (''special_instructions'',
        [''special_instructions'', ''instructions'', ''notes'', ''comments'', ''remarks'',
         ''delivery_instructions'', ''handling_instructions'', ''special_notes'',
         ''description''])]"

section \<open>Flattening\<close>

text \<open>
  \<^verbatim>\<open>_flatten_json(data, parent_key, separator)\<close>.  Anything but a dictionary flattens to the
  empty dictionary.  For a dictionary the entries are visited in order: a dictionary value is
  flattened under the new key, a non-empty list whose first element is a dictionary is replaced
  by the flattening of that first element, and every other value (a list too) is stored as it is.
  The collected pairs go through \<^verbatim>\<open>dict(items)\<close>.
\<close>

fun flatten_json :: "json \<Rightarrow> string \<Rightarrow> string \<Rightarrow> dict"
  and flatten_items :: "(string \<times> json) list \<Rightarrow> string \<Rightarrow> string \<Rightarrow> (string \<times> json) list"
where
  "flatten_json (JObj kvs) parent_key separator = dict_of (flatten_items kvs parent_key separator)"
| "flatten_json JNull parent_key separator = []"
| "flatten_json (JBool b) parent_key separator = []"
| "flatten_json (JInt i) parent_key separator = []"
| "flatten_json (JFloat x) parent_key separator = []"
| "flatten_json (JStr s) parent_key separator = []"
| "flatten_json (JArr xs) parent_key separator = []"
| "flatten_items [] parent_key separator = []"
| "flatten_items ((key, JObj kvs) # rest) parent_key separator =
     flatten_json (JObj kvs)
       (if parent_key \<noteq> [] then parent_key @ separator @ key else key) separator
     @ flatten_items rest parent_key separator"
| "flatten_items ((key, JArr (JObj kvs # others)) # rest) parent_key separator =
     flatten_json (JObj kvs)
       (if parent_key \<noteq> [] then parent_key @ separator @ key else key) separator
     @ flatten_items rest parent_key separator"
| "flatten_items ((key, v) # rest) parent_key separator =
     ((if parent_key \<noteq> [] then parent_key @ separator @ key else key), v)
     # flatten_items rest parent_key separator"

section \<open>Alias resolution\<close>

text \<open>
  \<^verbatim>\<open>_find_value_by_keys(data, possible_keys)\<close> is three loops in a row, each returning from
  the function at its first hit.  A loop is a recursive function whose result \<open>None\<close> stands
  for "ran to its end without returning".  Python's \<^verbatim>\<open>None\<close> is the value \<^const>\<open>JNull\<close>: it is
  what the function returns when no loop hits, and also what it returns when the hit is a key
  that holds \<^verbatim>\<open>None\<close>.
\<close>

fun exact_pass :: "dict \<Rightarrow> string list \<Rightarrow> json option" where
  "exact_pass data [] = None"
| "exact_pass data (key # keys) =
     (if has_key data key then lookup data key else exact_pass data keys)"

text \<open>\<^verbatim>\<open>{k.lower(): v for k, v in data.items()}\<close>\<close>

definition data_lower :: "dict \<Rightarrow> dict" where
  "data_lower data = dict_of (map (\<lambda>(k, v). (lower k, v)) data)"

fun lower_pass :: "dict \<Rightarrow> string list \<Rightarrow> json option" where
  "lower_pass dl [] = None"
| "lower_pass dl (key # keys) =
     (if has_key dl (lower key) then lookup dl (lower key) else lower_pass dl keys)"

fun partial_scan :: "string \<Rightarrow> dict \<Rightarrow> json option" where
  "partial_scan key [] = None"
| "partial_scan key ((data_key, v) # rest) =
     (if str_in (lower key) (lower data_key) \<or> str_in (lower data_key) (lower key)
      then Some v else partial_scan key rest)"

fun partial_pass :: "dict \<Rightarrow> string list \<Rightarrow> json option" where
  "partial_pass data [] = None"
| "partial_pass data (key # keys) =
     (case partial_scan key data of Some v \<Rightarrow> Some v | None \<Rightarrow> partial_pass data keys)"

definition find_value_by_keys :: "dict \<Rightarrow> string list \<Rightarrow> json" where
  "find_value_by_keys data possible_keys =
     (case exact_pass data possible_keys of
        Some v \<Rightarrow> v
      | None \<Rightarrow>
         (case lower_pass (data_lower data) possible_keys of
            Some v \<Rightarrow> v
          | None \<Rightarrow>
             (case partial_pass data possible_keys of
                Some v \<Rightarrow> v
              | None \<Rightarrow> JNull)))"

section \<open>Value normalization\<close>

subsection \<open>Stringification\<close>

definition digit_char :: "nat \<Rightarrow> char" where
  "digit_char n = ''0123456789'' ! (n mod 10)"

fun digits_of_nat :: "nat \<Rightarrow> string" where
  "digits_of_nat n =
     (if n < 10 then [digit_char n] else digits_of_nat (n div 10) @ [digit_char (n mod 10)])"

declare digits_of_nat.simps [simp del]

definition str_of_int :: "int \<Rightarrow> string" where
  "str_of_int i = (if i < 0 then CHR ''-'' # digits_of_nat (nat (- i)) else digits_of_nat (nat i))"

text \<open>
  \<^verbatim>\<open>str(value)\<close>.  The text of a float, a list or a dictionary is the work of the interpreter
  and is taken as the parameter \<open>repr\<close>.
\<close>

definition py_str :: "(json \<Rightarrow> string) \<Rightarrow> json \<Rightarrow> string" where
  "py_str repr v =
     (case v of
        JStr s \<Rightarrow> s
      | JNull \<Rightarrow> ''None''
      | JBool b \<Rightarrow> (if b then ''True'' else ''False'')
      | JInt i \<Rightarrow> str_of_int i
      | _ \<Rightarrow> repr v)"

subsection \<open>Weight\<close>

text \<open>
  \<^verbatim>\<open>re.search(r'(\d+\.?\d*)', s)\<close>: the leftmost position where a digit stands, then every
  digit that follows, a point if one follows, and every digit after the point.  Nothing comes
  after the last star, so the greedy match never backtracks.
\<close>

definition weight_search :: "string \<Rightarrow> string option" where
  "weight_search s =
     (case dropWhile (\<lambda>c. \<not> is_digit c) s of
        [] \<Rightarrow> None
      | c # r \<Rightarrow>
          (let ds = takeWhile is_digit (c # r); after = dropWhile is_digit (c # r)
           in (case after of
                 [] \<Rightarrow> Some ds
               | p # others \<Rightarrow>
                   (if p = CHR ''.'' then Some (ds @ [p] @ takeWhile is_digit others)
                    else Some ds))))"

subsection \<open>Address\<close>

fun split_on :: "char \<Rightarrow> string \<Rightarrow> string list" where
  "split_on sep [] = [[]]"
| "split_on sep (c # s) =
     (if c = sep then [] # split_on sep s
      else (case split_on sep s of
              [] \<Rightarrow> [[c]]
            | l # ls \<Rightarrow> (c # l) # ls))"

fun join :: "string \<Rightarrow> string list \<Rightarrow> string" where
  "join sep [] = []"
| "join sep [l] = l"
| "join sep (l # l' # ls) = l @ sep @ join sep (l' # ls)"

text \<open>\<^verbatim>\<open>s.replace(old, new)\<close> for one-character strings.\<close>

definition replace_char :: "char \<Rightarrow> char \<Rightarrow> string \<Rightarrow> string" where
  "replace_char old new s = map (\<lambda>c. if c = old then new else c) s"

definition normalize_address :: "string \<Rightarrow> string" where
  "normalize_address address_str =
     (let replaced = replace_char CHR '';'' CHR 0x0A (replace_char CHR ''|'' CHR 0x0A address_str);
          lines = map strip (filter (\<lambda>line. strip line \<noteq> []) (split_on CHR 0x0A replaced))
      in join [CHR 0x0A] lines)"

subsection \<open>Dates\<close>

text \<open>
  \<^verbatim>\<open>datetime.strptime\<close> and \<^verbatim>\<open>strftime\<close> belong to the interpreter's library.  The model
  follows the library for the directives that the module's formats use: a format is
  turned into a regular expression, one group per directive, matched at the start of the input with
  backtracking; the first match must end where the input ends, and the fields it found must
  make a date and a time.  Every failure of the library is a \<^verbatim>\<open>ValueError\<close>, here \<open>None\<close>.
\<close>

record datetime =
  year :: nat
  month :: nat
  day :: nat
  hour :: nat
  minute :: nat
  second :: nat
  microsecond :: nat

datatype directive = DirY | Dirm | Dird | DirH | DirM | DirS | Dirf | Lit char | Spaces

definition directive_of :: "char \<Rightarrow> directive option" where
  "directive_of c =
     map_of [(CHR ''Y'', DirY), (CHR ''m'', Dirm), (CHR ''d'', Dird), (CHR ''H'', DirH),
             (CHR ''M'', DirM), (CHR ''S'', DirS), (CHR ''f'', Dirf), (CHR ''%'', Lit CHR ''%'')] c"

text \<open>A character of the format outside a directive stands for itself, a blank for \<^verbatim>\<open>\s+\<close>.
  An unknown directive and a trailing percent sign make the library raise.\<close>

fun compile_format :: "string \<Rightarrow> directive list option" where
  "compile_format [] = Some []"
| "compile_format [c] =
     (if c = CHR ''%'' then None else Some [if is_space c then Spaces else Lit c])"
| "compile_format (c # d # rest) =
     (if c = CHR ''%''
      then (case directive_of d of
              None \<Rightarrow> None
            | Some x \<Rightarrow> map_option ((#) x) (compile_format rest))
      else map_option ((#) (if is_space c then Spaces else Lit c)) (compile_format (d # rest)))"

definition digit_val :: "char \<Rightarrow> nat" where
  "digit_val c = length (takeWhile (\<lambda>d. d \<noteq> c) ''0123456789'')"

definition num_of :: "string \<Rightarrow> nat" where
  "num_of s = foldl (\<lambda>a c. 10 * a + digit_val c) 0 s"

definition between :: "nat \<Rightarrow> nat \<Rightarrow> char \<Rightarrow> bool" where
  "between lo hi c = (is_digit c \<and> lo \<le> digit_val c \<and> digit_val c \<le> hi)"

text \<open>One alternative of a group: two characters, or one; the value read and the rest.\<close>

definition alt2 :: "(char \<Rightarrow> bool) \<Rightarrow> (char \<Rightarrow> bool) \<Rightarrow> string \<Rightarrow> (nat \<times> string) list" where
  "alt2 p q s =
     (case s of
        a # b # r \<Rightarrow> (if p a \<and> q b then [(num_of [a, b], r)] else [])
      | _ \<Rightarrow> [])"

definition alt1 :: "(char \<Rightarrow> bool) \<Rightarrow> string \<Rightarrow> (nat \<times> string) list" where
  "alt1 p s = (case s of a # r \<Rightarrow> (if p a then [(num_of [a], r)] else []) | _ \<Rightarrow> [])"

text \<open>The last alternative of \<^verbatim>\<open>%d\<close>: a blank, then a digit from 1 to 9.  The library reads the
  group with \<^verbatim>\<open>int\<close>, which ignores the blank: \<^verbatim>\<open>int(' 5')\<close> is 5.\<close>

definition blank_digit :: "string \<Rightarrow> (nat \<times> string) list" where
  "blank_digit s =
     (case s of
        a # b # r \<Rightarrow> (if a = CHR '' '' \<and> between 1 9 b then [(digit_val b, r)] else [])
      | _ \<Rightarrow> [])"

text \<open>
  The ways one directive can match at the start of \<open>s\<close>, in the order in which the
  library's expression tries them:
  \<^verbatim>\<open>%Y  \d\d\d\d\<close>,
  \<^verbatim>\<open>%m  1[0-2]|0[1-9]|[1-9]\<close>,
  \<^verbatim>\<open>%d  3[0-1]|[1-2]\d|0[1-9]|[1-9]| [1-9]\<close>,
  \<^verbatim>\<open>%H  2[0-3]|[0-1]\d|\d\<close>,
  \<^verbatim>\<open>%M  [0-5]\d|\d\<close>,
  \<^verbatim>\<open>%S  6[0-1]|[0-5]\d|\d\<close>,
  \<^verbatim>\<open>%f  [0-9]{1,6}\<close> (read as microseconds, padded with zeros on the right).
  The expression is compiled ignoring case.
\<close>

definition candidates :: "directive \<Rightarrow> string \<Rightarrow> (nat \<times> string) list" where
  "candidates d s =
     (case d of
        DirY \<Rightarrow> (if 4 \<le> length s \<and> list_all is_digit (take 4 s)
                 then [(num_of (take 4 s), drop 4 s)] else [])
      | Dirm \<Rightarrow> alt2 ((=) CHR ''1'') (between 0 2) s @ alt2 ((=) CHR ''0'') (between 1 9) s
                 @ alt1 (between 1 9) s
      | Dird \<Rightarrow> alt2 ((=) CHR ''3'') (between 0 1) s @ alt2 (between 1 2) is_digit s
                 @ alt2 ((=) CHR ''0'') (between 1 9) s @ alt1 (between 1 9) s
                 @ blank_digit s
      | DirH \<Rightarrow> alt2 ((=) CHR ''2'') (between 0 3) s @ alt2 (between 0 1) is_digit s
                 @ alt1 is_digit s
      | DirM \<Rightarrow> alt2 (between 0 5) is_digit s @ alt1 is_digit s
      | DirS \<Rightarrow> alt2 ((=) CHR ''6'') (between 0 1) s @ alt2 (between 0 5) is_digit s
                 @ alt1 is_digit s
      | Dirf \<Rightarrow> map (\<lambda>k. (num_of (take k s @ replicate (6 - k) CHR ''0''), drop k s))
                   (rev [1 ..< Suc (min 6 (length (takeWhile is_digit s)))])
      | Lit c \<Rightarrow> (case s of
                    a # r \<Rightarrow> (if lower_char a = lower_char c then [(0, r)] else [])
                  | [] \<Rightarrow> [])
      | Spaces \<Rightarrow> map (\<lambda>k. (0, drop k s)) (rev [1 ..< Suc (length (takeWhile is_space s))]))"

definition set_field :: "directive \<Rightarrow> nat \<Rightarrow> datetime \<Rightarrow> datetime" where
  "set_field d v dt =
     (case d of
        DirY \<Rightarrow> dt\<lparr>year := v\<rparr>
      | Dirm \<Rightarrow> dt\<lparr>month := v\<rparr>
      | Dird \<Rightarrow> dt\<lparr>day := v\<rparr>
      | DirH \<Rightarrow> dt\<lparr>hour := v\<rparr>
      | DirM \<Rightarrow> dt\<lparr>minute := v\<rparr>
      | DirS \<Rightarrow> dt\<lparr>second := v\<rparr>
      | Dirf \<Rightarrow> dt\<lparr>microsecond := v\<rparr>
      | _ \<Rightarrow> dt)"

text \<open>The first way to match the whole format, trying the candidates of each directive in
  order and going back to the next candidate when the rest of the format fails.\<close>

fun match_dirs :: "directive list \<Rightarrow> string \<Rightarrow> datetime \<Rightarrow> (datetime \<times> string) option"
  and match_cands ::
    "directive \<Rightarrow> directive list \<Rightarrow> (nat \<times> string) list \<Rightarrow> datetime \<Rightarrow> (datetime \<times> string) option"
where
  "match_dirs [] s dt = Some (dt, s)"
| "match_dirs (d # ds) s dt = match_cands d ds (candidates d s) dt"
| "match_cands d ds [] dt = None"
| "match_cands d ds ((v, r) # cs) dt =
     (case match_dirs ds r (set_field d v dt) of
        Some res \<Rightarrow> Some res
      | None \<Rightarrow> match_cands d ds cs dt)"

definition is_leap :: "nat \<Rightarrow> bool" where
  "is_leap y = (y mod 4 = 0 \<and> (y mod 100 \<noteq> 0 \<or> y mod 400 = 0))"

definition days_in_month :: "nat \<Rightarrow> nat \<Rightarrow> nat" where
  "days_in_month y m =
     (if m = 2 then (if is_leap y then 29 else 28)
      else if m \<in> {4, 6, 9, 11} then 30 else 31)"

definition valid_datetime :: "datetime \<Rightarrow> bool" where
  "valid_datetime dt =
     (1 \<le> year dt \<and> year dt \<le> 9999 \<and> 1 \<le> month dt \<and> month dt \<le> 12 \<and>
      1 \<le> day dt \<and> day dt \<le> days_in_month (year dt) (month dt) \<and>
      hour dt \<le> 23 \<and> minute dt \<le> 59 \<and> second dt \<le> 59 \<and> microsecond dt \<le> 999999)"

definition epoch_default :: datetime where
  "epoch_default =
     \<lparr>year = 1900, month = 1, day = 1, hour = 0, minute = 0, second = 0, microsecond = 0\<rparr>"

definition strptime :: "string \<Rightarrow> string \<Rightarrow> datetime option" where
  "strptime date_string format =
     (case compile_format format of
        None \<Rightarrow> None
      | Some ds \<Rightarrow>
          (case match_dirs ds date_string epoch_default of
             None \<Rightarrow> None
           | Some (dt, rest) \<Rightarrow>
               (if rest \<noteq> [] then None
                else if valid_datetime dt then Some dt else None)))"

definition zero_pad :: "nat \<Rightarrow> nat \<Rightarrow> string" where
  "zero_pad width n =
     replicate (width - length (digits_of_nat n)) CHR ''0'' @ digits_of_nat n"

text \<open>\<^verbatim>\<open>dt.strftime('%Y-%m-%d')\<close>.  The interpreter leaves the formatting to the C library,
  which writes the year as a plain number, with no leading zeros (year 999 is \<^verbatim>\<open>999\<close>), and
  the month and the day on two digits.\<close>

definition strftime_ymd :: "datetime \<Rightarrow> string" where
  "strftime_ymd dt =
     digits_of_nat (year dt) @ ''-'' @ zero_pad 2 (month dt) @ ''-'' @ zero_pad 2 (day dt)"

definition date_formats :: "string list" where
  "date_formats =
     [''%Y-%m-%d'', ''%m/%d/%Y'', ''%d/%m/%Y'', ''%Y/%m/%d'',
      ''%Y-%m-%d %H:%M:%S'', ''%m/%d/%Y %H:%M:%S'',
      ''%Y-%m-%dT%H:%M:%S'', ''%Y-%m-%dT%H:%M:%S.%f'']"

text \<open>The loop of \<^verbatim>\<open>_normalize_date\<close>: the first format that parses returns, a
  \<^verbatim>\<open>ValueError\<close> goes on to the next format, and the string itself is returned at the end.\<close>

fun try_formats :: "string list \<Rightarrow> string \<Rightarrow> string option" where
  "try_formats [] date_str = None"
| "try_formats (fmt # fmts) date_str =
     (case strptime date_str fmt of
        Some dt \<Rightarrow> Some (strftime_ymd dt)
      | None \<Rightarrow> try_formats fmts date_str)"

definition normalize_date :: "string \<Rightarrow> string" where
  "normalize_date date_str =
     (case try_formats date_formats date_str of Some out \<Rightarrow> out | None \<Rightarrow> date_str)"

subsection \<open>The dispatcher\<close>

definition normalize_value :: "(json \<Rightarrow> string) \<Rightarrow> string \<Rightarrow> json \<Rightarrow> string" where
  "normalize_value repr field_name v =
     (if v = JNull then []
      else
        (let str_value = strip (py_str repr v)
         in if field_name = ''package_weight''
            then (case weight_search str_value of Some m \<Rightarrow> m | None \<Rightarrow> str_value)
            else if field_name = ''shipping_date'' then normalize_date str_value
            else if field_name \<in> set [''shipper_address'', ''recipient_address'']
            then normalize_address str_value
            else str_value))"

section \<open>The parse pipeline\<close>

text \<open>
  The loop of \<^verbatim>\<open>parse_json_data\<close> over the alias table: a field is stored when the value
  found for it is not \<^verbatim>\<open>None\<close>.
\<close>

fun map_fields :: "(json \<Rightarrow> string) \<Rightarrow> dict \<Rightarrow> (string \<times> string list) list \<Rightarrow> dict \<Rightarrow> dict" where
  "map_fields repr flattened_data [] standardized_data = standardized_data"
| "map_fields repr flattened_data ((standard_field, possible_keys) # rest) standardized_data =
     (let v = find_value_by_keys flattened_data possible_keys
      in map_fields repr flattened_data rest
           (if v \<noteq> JNull
            then dict_set standardized_data standard_field
                   (JStr (normalize_value repr standard_field v))
            else standardized_data))"

text \<open>
  \<^verbatim>\<open>parse_json_data\<close>.  The clock reading \<^verbatim>\<open>datetime.now().isoformat()\<close> is the parameter
  \<open>parsed_at\<close>.  The metadata dictionary is built before it is stored, so
  \<^verbatim>\<open>found_mappings\<close> holds the fields found, those whose key does not start with an underscore.
\<close>

definition parse_json_data :: "(json \<Rightarrow> string) \<Rightarrow> string \<Rightarrow> json \<Rightarrow> dict" where
  "parse_json_data repr parsed_at data =
     (let flattened_data = flatten_json data [] ''.'';
          standardized_data = map_fields repr flattened_data field_mappings []
      in dict_set standardized_data ''_metadata''
           (JObj [(''parsed_at'', JStr parsed_at),
                  (''original_keys'', JArr (map (JStr \<circ> fst) flattened_data)),
                  (''found_mappings'',
                     JObj (filter (\<lambda>(k, v). \<not> startswith k ''_'') standardized_data))]))"

section \<open>Validation\<close>

text \<open>
  \<^verbatim>\<open>validate_parsed_data(data)\<close> takes any dictionary.  Exceptions that the function catches
  become warnings; an exception that it does not catch is the \<open>Inl\<close> result.
\<close>

datatype exc = ValueError | TypeError | OverflowError

record validation_report =
  is_valid :: bool
  missing_required :: "string list"
  found_fields :: "string list"
  warnings :: "string list"

definition required_fields :: "string list" where
  "required_fields = [''shipper_name'', ''recipient_name'', ''package_weight'', ''shipping_date'']"

text \<open>The truth value of a Python object, as \<^verbatim>\<open>not data[field]\<close> reads it.\<close>

definition truthy :: "json \<Rightarrow> bool" where
  "truthy v =
     (case v of
        JNull \<Rightarrow> False
      | JBool b \<Rightarrow> b
      | JInt i \<Rightarrow> i \<noteq> 0
      | JFloat x \<Rightarrow> x \<noteq> Finite 0
      | JStr s \<Rightarrow> s \<noteq> []
      | JObj kvs \<Rightarrow> kvs \<noteq> []
      | JArr xs \<Rightarrow> xs \<noteq> [])"

text \<open>\<^verbatim>\<open>field not in data or not data[field]\<close>: the subscript is read only for a key that is
  there.\<close>

definition missing_or_falsy :: "dict \<Rightarrow> string \<Rightarrow> bool" where
  "missing_or_falsy data field =
     (case lookup data field of None \<Rightarrow> True | Some v \<Rightarrow> \<not> truthy v)"

fun check_required :: "dict \<Rightarrow> string list \<Rightarrow> validation_report \<Rightarrow> validation_report" where
  "check_required data [] report = report"
| "check_required data (field # rest) report =
     check_required data rest
       (if missing_or_falsy data field
        then report\<lparr>is_valid := False, missing_required := missing_required report @ [field]\<rparr>
        else report)"

fun check_found :: "dict \<Rightarrow> string list \<Rightarrow> validation_report \<Rightarrow> validation_report" where
  "check_found data [] report = report"
| "check_found data (field # rest) report =
     check_found data rest
       (if \<not> missing_or_falsy data field
        then report\<lparr>found_fields := found_fields report @ [field]\<rparr>
        else report)"

text \<open>
  \<^verbatim>\<open>float(x)\<close>.  What the interpreter reads from a string is the parameter \<open>float_of_str\<close>
  (\<open>None\<close> for its \<^verbatim>\<open>ValueError\<close>).  An integer goes to the nearest float, which is on the
  same side of 0 and of 1000 as the integer, and an integer beyond the floats raises.
\<close>

definition py_float :: "(string \<Rightarrow> pyfloat option) \<Rightarrow> json \<Rightarrow> exc + pyfloat" where
  "py_float float_of_str v =
     (case v of
        JStr s \<Rightarrow> (case float_of_str s of None \<Rightarrow> Inl ValueError | Some x \<Rightarrow> Inr x)
      | JBool b \<Rightarrow> Inr (Finite (if b then 1 else 0))
      | JInt i \<Rightarrow> (if 2 ^ 1024 - 2 ^ 970 \<le> \<bar>i\<bar> then Inl OverflowError
                   else Inr (Finite (real_of_int i)))
      | JFloat x \<Rightarrow> Inr x
      | _ \<Rightarrow> Inl TypeError)"

definition le_zero :: "pyfloat \<Rightarrow> bool" where
  "le_zero x = (case x of NegInf \<Rightarrow> True | Finite r \<Rightarrow> r \<le> 0 | _ \<Rightarrow> False)"

definition gt_1000 :: "pyfloat \<Rightarrow> bool" where
  "gt_1000 x = (case x of PosInf \<Rightarrow> True | Finite r \<Rightarrow> 1000 < r | _ \<Rightarrow> False)"

definition weight_warnings :: "(string \<Rightarrow> pyfloat option) \<Rightarrow> dict \<Rightarrow> exc + string list" where
  "weight_warnings float_of_str data =
     (case lookup data ''package_weight'' of
        None \<Rightarrow> Inr []
      | Some v \<Rightarrow>
          (case py_float float_of_str v of
             Inr weight \<Rightarrow>
               Inr (if le_zero weight then [''Package weight should be greater than 0'']
                    else if gt_1000 weight then [''Package weight seems unusually high'']
                    else [])
           | Inl e \<Rightarrow>
               (if e \<in> set [ValueError, TypeError]
                then Inr [''Package weight is not a valid number'']
                else Inl e)))"

text \<open>The order of two naive \<^verbatim>\<open>datetime\<close> objects.\<close>

fun lex_less :: "nat list \<Rightarrow> nat list \<Rightarrow> bool" where
  "lex_less (a # as) (b # bs) = (a < b \<or> (a = b \<and> lex_less as bs))"
| "lex_less _ _ = False"

definition datetime_less :: "datetime \<Rightarrow> datetime \<Rightarrow> bool" where
  "datetime_less a b =
     lex_less [year a, month a, day a, hour a, minute a, second a, microsecond a]
              [year b, month b, day b, hour b, minute b, second b, microsecond b]"

text \<open>\<^verbatim>\<open>strptime\<close> refuses anything but a string with a \<^verbatim>\<open>TypeError\<close>, which the
  function does not catch.  The clock reading \<^verbatim>\<open>datetime.now()\<close> is the parameter \<open>now\<close>.\<close>

definition date_warnings :: "datetime \<Rightarrow> dict \<Rightarrow> exc + string list" where
  "date_warnings now data =
     (case lookup data ''shipping_date'' of
        None \<Rightarrow> Inr []
      | Some v \<Rightarrow>
          (case v of
             JStr s \<Rightarrow>
               (case strptime s ''%Y-%m-%d'' of
                  Some ship_date \<Rightarrow>
                    Inr (if datetime_less ship_date now then [''Shipping date is in the past'']
                         else [])
                | None \<Rightarrow> Inr [''Shipping date format is invalid''])
           | _ \<Rightarrow> Inl TypeError))"

definition validate_parsed_data ::
  "(string \<Rightarrow> pyfloat option) \<Rightarrow> datetime \<Rightarrow> dict \<Rightarrow> exc + validation_report" where
  "validate_parsed_data float_of_str now data =
     (let report0 = \<lparr>is_valid = True, missing_required = [], found_fields = [], warnings = []\<rparr>;
          report1 = check_required data required_fields report0;
          report2 = check_found data (map fst field_mappings) report1
      in (case weight_warnings float_of_str data of
            Inl e \<Rightarrow> Inl e
          | Inr ws \<Rightarrow>
              (case date_warnings now data of
                 Inl e \<Rightarrow> Inl e
               | Inr ws' \<Rightarrow> Inr (report2\<lparr>warnings := warnings report2 @ ws @ ws'\<rparr>))))"

section \<open>Notions of the specification\<close>

text \<open>A scalar of the specification: Null, Boolean, Number or String.\<close>

definition is_scalar :: "json \<Rightarrow> bool" where
  "is_scalar v = (case v of JObj kvs \<Rightarrow> False | JArr xs \<Rightarrow> False | _ \<Rightarrow> True)"

definition is_object :: "json \<Rightarrow> bool" where
  "is_object v = (case v of JObj kvs \<Rightarrow> True | _ \<Rightarrow> False)"

text \<open>What the flattener stores: a scalar, or a list that is empty or does not start with a
  dictionary.\<close>

definition stored_value :: "json \<Rightarrow> bool" where
  "stored_value v =
     (case v of
        JObj kvs \<Rightarrow> False
      | JArr xs \<Rightarrow> (case xs of [] \<Rightarrow> True | x # others \<Rightarrow> \<not> is_object x)
      | _ \<Rightarrow> True)"

text \<open>The third pass compares without case and accepts containment either way: the alias
  inside the document key, or the document key inside the alias.\<close>

definition partial_match :: "string \<Rightarrow> string \<Rightarrow> bool" where
  "partial_match alias key =
     ((\<exists>p s. lower key = p @ lower alias @ s) \<or> (\<exists>p s. lower alias = p @ lower key @ s))"

text \<open>
  The numeric token in the specification's words: optional digits, an optional decimal point,
  optional digits; the first place of the string where this pattern matches something.
\<close>

definition spec_token_at :: "string \<Rightarrow> string" where
  "spec_token_at s =
     takeWhile is_digit s @
     (case dropWhile is_digit s of
        [] \<Rightarrow> []
      | p # others \<Rightarrow> (if p = CHR ''.'' then p # takeWhile is_digit others else []))"

fun spec_first_token :: "string \<Rightarrow> string option" where
  "spec_first_token [] = None"
| "spec_first_token (c # s) =
     (if spec_token_at (c # s) \<noteq> [] then Some (spec_token_at (c # s)) else spec_first_token s)"

definition spec_normalize_weight :: "string \<Rightarrow> string" where
  "spec_normalize_weight raw =
     (case spec_first_token (strip raw) of Some tok \<Rightarrow> tok | None \<Rightarrow> strip raw)"

text \<open>The canonical forms of the values of a record: a string with no blank at either end;
  a weight made of digits, then possibly a point and digits; a date written
  \<^verbatim>\<open>YYYY-MM-DD\<close> with a year from 1000 on (its first digit is not 0); an address whose
  separators are line breaks and whose lines are non-empty with no blank at either end.\<close>

definition trimmed :: "string \<Rightarrow> bool" where
  "trimmed s = (case s of [] \<Rightarrow> True | c # r \<Rightarrow> \<not> is_space c \<and> \<not> is_space (last s))"

definition numeric_token :: "string \<Rightarrow> bool" where
  "numeric_token s =
     (takeWhile is_digit s \<noteq> [] \<and>
      (case dropWhile is_digit s of
         [] \<Rightarrow> True
       | p # others \<Rightarrow> p = CHR ''.'' \<and> list_all is_digit others))"

definition iso_date_form :: "string \<Rightarrow> bool" where
  "iso_date_form s =
     (length s = 10 \<and> list_all is_digit (take 4 s) \<and> s ! 4 = CHR ''-'' \<and>
      list_all is_digit (take 2 (drop 5 s)) \<and> s ! 7 = CHR ''-'' \<and>
      list_all is_digit (drop 8 s))"

definition address_form :: "string \<Rightarrow> bool" where
  "address_form s =
     (CHR ''|'' \<notin> set s \<and> CHR '';'' \<notin> set s \<and>
      (s = [] \<or> list_all (\<lambda>line. line \<noteq> [] \<and> trimmed line) (split_on CHR 0x0A s)))"

definition canonical_value :: "string \<Rightarrow> string \<Rightarrow> bool" where
  "canonical_value field s =
     (trimmed s \<and>
      (if field = ''package_weight'' then numeric_token s
       else if field = ''shipping_date'' then iso_date_form s \<and> take 1 s \<noteq> ''0''
       else if field \<in> set [''shipper_address'', ''recipient_address''] then address_form s
       else True))"

text \<open>A canonical record holds strings under the canonical fields it has.\<close>

definition canonical_record :: "dict \<Rightarrow> bool" where
  "canonical_record data =
     list_all (\<lambda>field. case lookup data field of
                          None \<Rightarrow> True
                        | Some v \<Rightarrow> (case v of JStr s \<Rightarrow> True | _ \<Rightarrow> False))
       (map fst field_mappings)"

text \<open>A required field that is missing from a record or has an empty value.\<close>

definition missing_or_empty :: "dict \<Rightarrow> string \<Rightarrow> bool" where
  "missing_or_empty data field = (lookup data field = None \<or> lookup data field = Some (JStr []))"

text \<open>A string whose first character satisfies \<open>P\<close>.\<close>

definition begins_with :: "(char \<Rightarrow> bool) \<Rightarrow> string \<Rightarrow> bool" where
  "begins_with P s = (case s of [] \<Rightarrow> False | c # r \<Rightarrow> P c)"

text \<open>A stand-in for the interpreter's text of floats, lists and dictionaries, for the
  evaluation of examples in which none occurs.\<close>

definition no_repr :: "json \<Rightarrow> string" where
  "no_repr v = []"

text \<open>A stand-in for the interpreter's reading of floats that accepts no string.\<close>

definition no_float :: "string \<Rightarrow> pyfloat option" where
  "no_float s = None"

section \<open>Properties\<close>

text \<open>The definitions that the evaluation of a date at a given string unfolds.\<close>

lemmas date_eval = strptime_def directive_of_def is_space_def candidates_def alt1_def alt2_def
  blank_digit_def
  between_def is_digit_def num_of_def digit_val_def set_field_def epoch_default_def
  valid_datetime_def days_in_month_def is_leap_def lower_char_def upper_chars_def lower_chars_def

subsection \<open>Dictionaries, flattening, resolution\<close>

lemma lookup_dict_set: "lookup (dict_set d k v) k' = (if k' = k then Some v else lookup d k')"
  by (induction d) (auto simp: lookup_def)

lemma has_key_lookup: "has_key d k = (lookup d k \<noteq> None)"
  by (simp add: has_key_def lookup_def map_of_eq_None_iff)

lemma values_dict_set: "snd ` set (dict_set d k v) \<subseteq> insert v (snd ` set d)"
  by (induction d) (force split: if_splits)+

lemma values_dict_extend: "snd ` set (dict_extend d items) \<subseteq> snd ` set d \<union> snd ` set items"
proof (induction items arbitrary: d)
  case Nil
  then show ?case by simp
next
  case (Cons p items)
  obtain k v where p: "p = (k, v)" by (cases p)
  have "snd ` set (dict_extend (dict_set d k v) items)
          \<subseteq> snd ` set (dict_set d k v) \<union> snd ` set items"
    by (rule Cons.IH)
  also have "\<dots> \<subseteq> insert v (snd ` set d) \<union> snd ` set items"
    using values_dict_set [of d k v] by blast
  finally show ?case by (auto simp: p)
qed

lemma values_dict_of: "snd ` set (dict_of items) \<subseteq> snd ` set items"
  using values_dict_extend [of "[]" items] by (simp add: dict_of_def)

lemma flatten_stored:
  "\<forall>p \<in> set (flatten_json data parent_key separator). stored_value (snd p)"
  "\<forall>p \<in> set (flatten_items kvs parent_key separator). stored_value (snd p)"
proof (induction data parent_key separator and kvs parent_key separator
       rule: flatten_json_flatten_items.induct)
  case (1 kvs parent_key separator)
  show ?case
  proof
    fix p assume "p \<in> set (flatten_json (JObj kvs) parent_key separator)"
    then have "snd p \<in> snd ` set (dict_of (flatten_items kvs parent_key separator))" by simp
    then have "snd p \<in> snd ` set (flatten_items kvs parent_key separator)"
      using values_dict_of by blast
    then show "stored_value (snd p)" using 1 by auto
  qed
qed (auto simp: stored_value_def is_object_def)

lemma exact_pass_empty: "exact_pass [] keys = None"
  by (induction keys) (auto simp: has_key_def)

lemma lower_pass_empty: "lower_pass [] keys = None"
  by (induction keys) (auto simp: has_key_def)

lemma partial_pass_empty: "partial_pass [] keys = None"
  by (induction keys) auto

lemma find_value_empty: "find_value_by_keys [] keys = JNull"
  by (simp add: find_value_by_keys_def exact_pass_empty lower_pass_empty partial_pass_empty
      data_lower_def dict_of_def)

lemma map_fields_empty: "map_fields repr [] table acc = acc"
  by (induction table arbitrary: acc) (auto simp: find_value_empty)

lemma flatten_non_object: "\<not> is_object data \<Longrightarrow> flatten_json data parent_key separator = []"
  by (cases data) (auto simp: is_object_def)

lemma map_fields_lookup_other:
  "f \<notin> fst ` set table \<Longrightarrow> lookup (map_fields repr fd table acc) f = lookup acc f"
  by (induction table arbitrary: acc) (auto simp: lookup_dict_set Let_def)

lemma map_fields_lookup:
  "distinct (map fst table) \<Longrightarrow> (f, ks) \<in> set table \<Longrightarrow>
   lookup (map_fields repr fd table acc) f =
     (if find_value_by_keys fd ks \<noteq> JNull
      then Some (JStr (normalize_value repr f (find_value_by_keys fd ks)))
      else lookup acc f)"
proof (induction table arbitrary: acc)
  case Nil
  then show ?case by simp
next
  case (Cons p table)
  obtain g gs where p: "p = (g, gs)" by (cases p)
  show ?case
  proof (cases "(f, ks) = (g, gs)")
    case True
    then have "f \<notin> fst ` set table" using Cons.prems(1) p by auto
    then show ?thesis using True p
      by (simp add: map_fields_lookup_other lookup_dict_set Let_def)
  next
    case False
    then have in_tl: "(f, ks) \<in> set table" using Cons.prems(2) p by auto
    then have "f \<noteq> g" using Cons.prems(1) p by force
    moreover have "distinct (map fst table)" using Cons.prems(1) by simp
    ultimately show ?thesis using Cons.IH [OF _ in_tl] p
      by (simp add: lookup_dict_set Let_def)
  qed
qed

lemma distinct_field_mappings: "distinct (map fst field_mappings)"
  by (simp add: field_mappings_def)

lemma metadata_not_field: "(f, ks) \<in> set field_mappings \<Longrightarrow> f \<noteq> ''_metadata''"
  by (auto simp: field_mappings_def)

lemma parse_lookup:
  "(f, ks) \<in> set field_mappings \<Longrightarrow>
   lookup (parse_json_data repr parsed_at data) f =
     (if find_value_by_keys (flatten_json data [] ''.'') ks \<noteq> JNull
      then Some (JStr (normalize_value repr f
                   (find_value_by_keys (flatten_json data [] ''.'') ks)))
      else None)"
  using map_fields_lookup [OF distinct_field_mappings, of f ks repr "flatten_json data [] ''.''" "[]"]
        metadata_not_field [of f ks]
  by (simp add: parse_json_data_def Let_def lookup_dict_set) (simp add: lookup_def)



lemma startswith_iff: "startswith s p = (\<exists>r. s = p @ r)"
  by (induction s p rule: startswith.induct) auto

lemma str_in_iff: "str_in a b = (\<exists>p s. b = p @ a @ s)"
proof (induction b)
  case Nil
  then show ?case by auto
next
  case (Cons c b)
  show ?case
  proof
    assume "str_in a (c # b)"
    then consider "startswith (c # b) a" | "str_in a b" by auto
    then show "\<exists>p s. c # b = p @ a @ s"
    proof cases
      case 1
      then obtain r where "c # b = a @ r" by (auto simp: startswith_iff)
      then have "c # b = [] @ a @ r" by simp
      then show ?thesis by blast
    next
      case 2
      then obtain p s where "b = p @ a @ s" using Cons.IH by auto
      then have "c # b = (c # p) @ a @ s" by simp
      then show ?thesis by blast
    qed
  next
    assume "\<exists>p s. c # b = p @ a @ s"
    then obtain p s where ps: "c # b = p @ a @ s" by auto
    show "str_in a (c # b)"
    proof (cases p)
      case Nil
      then have "startswith (c # b) a" using ps by (auto simp: startswith_iff)
      then show ?thesis by simp
    next
      case (Cons c' p')
      then have "b = p' @ a @ s" using ps by simp
      then have "str_in a b" using Cons.IH by auto
      then show ?thesis by simp
    qed
  qed
qed

lemma exact_pass_hit:
  "\<forall>b\<in>set pre. \<not> has_key data b \<Longrightarrow> has_key data a \<Longrightarrow>
   exact_pass data (pre @ a # post) = lookup data a"
  by (induction pre) auto

lemma exact_pass_miss: "\<forall>b\<in>set keys. \<not> has_key data b \<Longrightarrow> exact_pass data keys = None"
  by (induction keys) auto

lemma lower_pass_hit:
  "\<forall>b\<in>set pre. \<not> has_key dl (lower b) \<Longrightarrow> has_key dl (lower a) \<Longrightarrow>
   lower_pass dl (pre @ a # post) = lookup dl (lower a)"
  by (induction pre) auto

lemma lower_pass_miss:
  "\<forall>b\<in>set keys. \<not> has_key dl (lower b) \<Longrightarrow> lower_pass dl keys = None"
  by (induction keys) auto

lemma partial_scan_hit:
  "\<forall>k'\<in>fst ` set dpre. \<not> (str_in (lower a) (lower k') \<or> str_in (lower k') (lower a)) \<Longrightarrow>
   str_in (lower a) (lower k) \<or> str_in (lower k) (lower a) \<Longrightarrow>
   partial_scan a (dpre @ (k, v) # dpost) = Some v"
  by (induction dpre) auto

lemma partial_scan_miss:
  "\<forall>k\<in>fst ` set data. \<not> (str_in (lower a) (lower k) \<or> str_in (lower k) (lower a)) \<Longrightarrow>
   partial_scan a data = None"
  by (induction data) auto

lemma partial_pass_hit:
  "\<forall>b\<in>set pre. partial_scan b data = None \<Longrightarrow> partial_scan a data = Some v \<Longrightarrow>
   partial_pass data (pre @ a # post) = Some v"
  by (induction pre) auto

lemma partial_pass_miss:
  "\<forall>b\<in>set keys. partial_scan b data = None \<Longrightarrow> partial_pass data keys = None"
  by (induction keys) auto

lemma lookup_dict_extend:
  "lookup (dict_extend d items) x =
     (case map_of (rev items) x of Some v \<Rightarrow> Some v | None \<Rightarrow> lookup d x)"
proof (induction items arbitrary: d)
  case Nil
  then show ?case by simp
next
  case (Cons p items)
  obtain k v where p: "p = (k, v)" by (cases p)
  show ?case
    by (simp add: p Cons.IH lookup_dict_set map_add_def split: option.splits)
qed

lemma lookup_data_lower:
  "lookup (data_lower data) x = map_of (rev (map (\<lambda>(k, v). (lower k, v)) data)) x"
proof -
  have "lookup [] x = None" by (simp add: lookup_def)
  then show ?thesis
    by (simp add: data_lower_def dict_of_def lookup_dict_extend split: option.splits)
qed

lemma has_key_data_lower: "has_key (data_lower data) x = (x \<in> lower ` fst ` set data)"
proof -
  have "fst ` set (rev (map (\<lambda>(k, v). (lower k, v)) data)) = lower ` fst ` set data"
    by force
  then show ?thesis
    by (simp add: has_key_lookup lookup_data_lower map_of_eq_None_iff)
qed

lemma lookup_data_lower_source:
  "lookup (data_lower data) x = Some v \<Longrightarrow> \<exists>k. (k, v) \<in> set data \<and> lower k = x"
proof -
  assume "lookup (data_lower data) x = Some v"
  then have "map_of (rev (map (\<lambda>(k, v). (lower k, v)) data)) x = Some v"
    by (simp add: lookup_data_lower)
  then have "(x, v) \<in> set (rev (map (\<lambda>(k, v). (lower k, v)) data))"
    by (rule map_of_SomeD)
  then show ?thesis by auto
qed

lemma lookup_data_lower_last:
  "lower k = x \<Longrightarrow> \<forall>k'\<in>fst ` set dpost. lower k' \<noteq> x \<Longrightarrow>
   lookup (data_lower (dpre @ (k, v) # dpost)) x = Some v"
proof -
  assume k: "lower k = x" and post: "\<forall>k'\<in>fst ` set dpost. lower k' \<noteq> x"
  have "x \<notin> fst ` set (rev (map (\<lambda>(k, v). (lower k, v)) dpost))"
    using post by force
  then have "map_of (rev (map (\<lambda>(k, v). (lower k, v)) dpost)) x = None"
    by (simp add: map_of_eq_None_iff)
  then show ?thesis using k
    by (simp add: lookup_data_lower map_add_def)
qed


lemma partial_match_str_in:
  "partial_match a k = (str_in (lower a) (lower k) \<or> str_in (lower k) (lower a))"
  by (simp add: partial_match_def str_in_iff)

lemma partial_match_refl: "lower k = lower a \<Longrightarrow> partial_match a k"
proof -
  assume "lower k = lower a"
  then have "lower k = [] @ lower a @ []" by simp
  then show ?thesis unfolding partial_match_def by blast
qed

lemma no_exact_key: "\<forall>k\<in>fst ` set data. lower k \<noteq> lower b \<Longrightarrow> \<not> has_key data b"
proof
  assume ne: "\<forall>k\<in>fst ` set data. lower k \<noteq> lower b" and "has_key data b"
  then have "b \<in> fst ` set data" by (simp add: has_key_def)
  with ne have "lower b \<noteq> lower b" by (rule bspec)
  then show False by simp
qed

lemma no_lower_key:
  "\<forall>k\<in>fst ` set data. lower k \<noteq> lower b \<Longrightarrow> \<not> has_key (data_lower data) (lower b)"
proof
  assume ne: "\<forall>k\<in>fst ` set data. lower k \<noteq> lower b"
    and "has_key (data_lower data) (lower b)"
  then have "lower b \<in> lower ` fst ` set data" by (simp add: has_key_data_lower)
  then obtain k where k: "k \<in> fst ` set data" and eq: "lower b = lower k" by (rule imageE)
  from ne k have "lower k \<noteq> lower b" by (rule bspec)
  then show False using eq by simp
qed

lemma some_lower_key:
  "k \<in> fst ` set data \<Longrightarrow> lower k = lower a \<Longrightarrow> has_key (data_lower data) (lower a)"
proof -
  assume k: "k \<in> fst ` set data" and eq: "lower k = lower a"
  from k have "lower k \<in> lower ` fst ` set data" by (rule imageI)
  then show ?thesis using eq by (simp add: has_key_data_lower)
qed

lemma find_value_exact:
  assumes "\<forall>b\<in>set pre. \<not> has_key data b" and "lookup data a = Some v"
  shows "find_value_by_keys data (pre @ a # post) = v"
proof -
  have "has_key data a" using assms(2) by (simp add: has_key_lookup)
  then have "exact_pass data (pre @ a # post) = Some v"
    using exact_pass_hit [OF assms(1)] assms(2) by simp
  then show ?thesis by (simp add: find_value_by_keys_def)
qed

lemma find_value_lower:
  assumes "\<forall>b\<in>set (pre @ a # post). \<not> has_key data b"
    and "\<forall>b\<in>set pre. \<forall>k\<in>fst ` set data. lower k \<noteq> lower b"
    and "k \<in> fst ` set data" and "lower k = lower a"
  shows "lookup (data_lower data) (lower a) = Some (find_value_by_keys data (pre @ a # post))"
proof -
  have miss: "exact_pass data (pre @ a # post) = None"
    using assms(1) by (rule exact_pass_miss)
  have pre: "\<forall>b\<in>set pre. \<not> has_key (data_lower data) (lower b)"
    using assms(2) by (simp add: no_lower_key)
  have hit: "has_key (data_lower data) (lower a)"
    using assms(3,4) by (rule some_lower_key)
  then obtain w where w: "lookup (data_lower data) (lower a) = Some w"
    by (auto simp: has_key_lookup)
  have "lower_pass (data_lower data) (pre @ a # post) = Some w"
    using lower_pass_hit [OF pre hit] w by simp
  then show ?thesis using miss w by (simp add: find_value_by_keys_def)
qed

lemma find_value_partial:
  assumes "\<forall>b\<in>set (pre @ a # post). \<forall>k\<in>fst ` set data. lower k \<noteq> lower b"
    and "\<forall>b\<in>set pre. \<forall>k\<in>fst ` set data. \<not> partial_match b k"
    and "data = dpre @ (dk, v) # dpost"
    and "\<forall>k\<in>fst ` set dpre. \<not> partial_match a k"
    and "partial_match a dk"
  shows "find_value_by_keys data (pre @ a # post) = v"
proof -
  have "\<forall>b\<in>set (pre @ a # post). \<not> has_key data b"
    using assms(1) by (simp add: no_exact_key)
  then have m1: "exact_pass data (pre @ a # post) = None" by (rule exact_pass_miss)
  have "\<forall>b\<in>set (pre @ a # post). \<not> has_key (data_lower data) (lower b)"
    using assms(1) by (simp add: no_lower_key)
  then have m2: "lower_pass (data_lower data) (pre @ a # post) = None" by (rule lower_pass_miss)
  have "\<forall>b\<in>set pre. partial_scan b data = None"
  proof
    fix b assume "b \<in> set pre"
    with assms(2) have "\<forall>k\<in>fst ` set data. \<not> partial_match b k" by (rule bspec)
    then have "\<forall>k\<in>fst ` set data. \<not> (str_in (lower b) (lower k) \<or> str_in (lower k) (lower b))"
      by (simp only: partial_match_str_in)
    then show "partial_scan b data = None" by (rule partial_scan_miss)
  qed
  moreover have "partial_scan a data = Some v"
    unfolding assms(3)
  proof (rule partial_scan_hit)
    show "\<forall>k'\<in>fst ` set dpre. \<not> (str_in (lower a) (lower k') \<or> str_in (lower k') (lower a))"
      using assms(4) by (simp only: partial_match_str_in)
    show "str_in (lower a) (lower dk) \<or> str_in (lower dk) (lower a)"
      using assms(5) by (simp only: partial_match_str_in)
  qed
  ultimately have "partial_pass data (pre @ a # post) = Some v" by (rule partial_pass_hit)
  then show ?thesis using m1 m2 by (simp add: find_value_by_keys_def)
qed

lemma find_value_none:
  assumes "\<forall>b\<in>set keys. \<forall>k\<in>fst ` set data. \<not> partial_match b k"
  shows "find_value_by_keys data keys = JNull"
proof -
  have ne: "\<forall>b\<in>set keys. \<forall>k\<in>fst ` set data. lower k \<noteq> lower b"
  proof (intro ballI notI)
    fix b k assume b: "b \<in> set keys" and k: "k \<in> fst ` set data" and eq: "lower k = lower b"
    from assms b have "\<forall>k\<in>fst ` set data. \<not> partial_match b k" by (rule bspec)
    then have "\<not> partial_match b k" using k by (rule bspec)
    then show False using partial_match_refl [OF eq] by simp
  qed
  then have "\<forall>b\<in>set keys. \<not> has_key data b" by (simp add: no_exact_key)
  then have m1: "exact_pass data keys = None" by (rule exact_pass_miss)
  have "\<forall>b\<in>set keys. \<not> has_key (data_lower data) (lower b)"
    using ne by (simp add: no_lower_key)
  then have m2: "lower_pass (data_lower data) keys = None" by (rule lower_pass_miss)
  have "\<forall>b\<in>set keys. partial_scan b data = None"
  proof
    fix b assume "b \<in> set keys"
    with assms have "\<forall>k\<in>fst ` set data. \<not> partial_match b k" by (rule bspec)
    then have "\<forall>k\<in>fst ` set data. \<not> (str_in (lower b) (lower k) \<or> str_in (lower k) (lower b))"
      by (simp only: partial_match_str_in)
    then show "partial_scan b data = None" by (rule partial_scan_miss)
  qed
  then have "partial_pass data keys = None" by (rule partial_pass_miss)
  then show ?thesis using m1 m2 by (simp add: find_value_by_keys_def)
qed

text \<open>
  Claim C1.  Resolution goes through three passes and returns the value of the first hit.
  Pass 1: the first alias, in table order, that is a key of the document gives that key's value.
  Pass 2, reached when no alias is a key: the first alias that equals a document key up to case
  gives the value of a document key equal to it up to case.
  Pass 3, reached when no alias equals a key up to case: the first alias that partially matches
  some key gives the value of the first key, in the document's order, that it partially matches.
  When no alias partially matches any key the result is \<^verbatim>\<open>None\<close>.
  No condition on a later pass enters the result of an earlier one.
\<close>

theorem find_value_three_passes:
  "(possible_keys = pre @ a # post \<and> (\<forall>b\<in>set pre. \<not> has_key data b) \<and> lookup data a = Some v
      \<longrightarrow> find_value_by_keys data possible_keys = v)
   \<and> (possible_keys = pre @ a # post \<and> (\<forall>b\<in>set possible_keys. \<not> has_key data b)
       \<and> (\<forall>b\<in>set pre. \<forall>k\<in>fst ` set data. lower k \<noteq> lower b)
       \<and> (\<exists>k\<in>fst ` set data. lower k = lower a)
      \<longrightarrow> (\<exists>k. (k, find_value_by_keys data possible_keys) \<in> set data \<and> lower k = lower a))
   \<and> (possible_keys = pre @ a # post
       \<and> (\<forall>b\<in>set possible_keys. \<forall>k\<in>fst ` set data. lower k \<noteq> lower b)
       \<and> (\<forall>b\<in>set pre. \<forall>k\<in>fst ` set data. \<not> partial_match b k)
       \<and> data = dpre @ (dk, v) # dpost
       \<and> (\<forall>k\<in>fst ` set dpre. \<not> partial_match a k) \<and> partial_match a dk
      \<longrightarrow> find_value_by_keys data possible_keys = v)
   \<and> ((\<forall>b\<in>set possible_keys. \<forall>k\<in>fst ` set data. \<not> partial_match b k)
      \<longrightarrow> find_value_by_keys data possible_keys = JNull)"
proof (intro conjI impI; (elim conjE)?)
  assume "possible_keys = pre @ a # post" "\<forall>b\<in>set pre. \<not> has_key data b"
         "lookup data a = Some v"
  then show "find_value_by_keys data possible_keys = v"
    by (simp only: find_value_exact)
next
  assume pk: "possible_keys = pre @ a # post"
    and m1: "\<forall>b\<in>set possible_keys. \<not> has_key data b"
    and m2: "\<forall>b\<in>set pre. \<forall>k\<in>fst ` set data. lower k \<noteq> lower b"
    and ex: "\<exists>k\<in>fst ` set data. lower k = lower a"
  from ex obtain k where "k \<in> fst ` set data" and "lower k = lower a" by (rule bexE)
  with m1 m2 have "lookup (data_lower data) (lower a)
      = Some (find_value_by_keys data (pre @ a # post))"
    unfolding pk by (rule find_value_lower)
  then show "\<exists>k. (k, find_value_by_keys data possible_keys) \<in> set data \<and> lower k = lower a"
    unfolding pk by (rule lookup_data_lower_source)
next
  assume "possible_keys = pre @ a # post"
    and "\<forall>b\<in>set possible_keys. \<forall>k\<in>fst ` set data. lower k \<noteq> lower b"
    and "\<forall>b\<in>set pre. \<forall>k\<in>fst ` set data. \<not> partial_match b k"
    and "data = dpre @ (dk, v) # dpost"
    and "\<forall>k\<in>fst ` set dpre. \<not> partial_match a k" and "partial_match a dk"
  then show "find_value_by_keys data possible_keys = v"
    using find_value_partial [of pre a post data dpre dk v dpost] by (simp only:)
next
  assume "\<forall>b\<in>set possible_keys. \<forall>k\<in>fst ` set data. \<not> partial_match b k"
  then show "find_value_by_keys data possible_keys = JNull" by (rule find_value_none)
qed

theorem find_value_three_passes_witness:
  "find_value_by_keys [(''Weight'', JInt 1), (''weight'', JInt 2)]
       [''package_weight'', ''weight''] = JInt 2
   \<and> find_value_by_keys [(''WEIGHT'', JInt 5)] [''package_weight'', ''weight''] = JInt 5
   \<and> find_value_by_keys
         [(''shipment.id'', JInt 7), (''shipment.package.weight'', JStr ''25.3 lbs'')]
         [''package_weight'', ''weight''] = JStr ''25.3 lbs''
   \<and> find_value_by_keys [(''colour'', JStr ''red'')] [''package_weight'', ''weight''] = JNull"
proof (intro conjI)
  let ?keys = "[''package_weight'', ''weight'']"
  have keys: "?keys = [''package_weight''] @ ''weight'' # []" by simp
  have low: "lower ''package_weight'' = ''package_weight''" "lower ''weight'' = ''weight''"
    "lower ''Weight'' = ''weight''" "lower ''WEIGHT'' = ''weight''"
    "lower ''shipment.id'' = ''shipment.id''"
    "lower ''shipment.package.weight'' = ''shipment.package.weight''"
    "lower ''colour'' = ''colour''"
    by (simp_all add: lower_def lower_char_def upper_chars_def lower_chars_def)
  let ?d1 = "[(''Weight'', JInt 1), (''weight'', JInt 2)]"
  have "?keys = [''package_weight''] @ ''weight'' # []
        \<and> (\<forall>b\<in>set [''package_weight'']. \<not> has_key ?d1 b) \<and> lookup ?d1 ''weight'' = Some (JInt 2)"
    by (simp add: has_key_def lookup_def)
  then show "find_value_by_keys ?d1 ?keys = JInt 2"
    by (rule mp [OF conjunct1 [OF find_value_three_passes]])
  let ?d2 = "[(''WEIGHT'', JInt 5)]"
  have "?keys = [''package_weight''] @ ''weight'' # []
        \<and> (\<forall>b\<in>set ?keys. \<not> has_key ?d2 b)
        \<and> (\<forall>b\<in>set [''package_weight'']. \<forall>k\<in>fst ` set ?d2. lower k \<noteq> lower b)
        \<and> (\<exists>k\<in>fst ` set ?d2. lower k = lower ''weight'')"
    by (simp add: has_key_def low)
  then have "\<exists>k. (k, find_value_by_keys ?d2 ?keys) \<in> set ?d2 \<and> lower k = lower ''weight''"
    by (rule mp [OF conjunct1 [OF conjunct2 [OF find_value_three_passes]]])
  then show "find_value_by_keys ?d2 ?keys = JInt 5" by simp
  let ?d3 = "[(''shipment.id'', JInt 7), (''shipment.package.weight'', JStr ''25.3 lbs'')]"
  have "?keys = [''package_weight''] @ ''weight'' # []
        \<and> (\<forall>b\<in>set ?keys. \<forall>k\<in>fst ` set ?d3. lower k \<noteq> lower b)
        \<and> (\<forall>b\<in>set [''package_weight'']. \<forall>k\<in>fst ` set ?d3. \<not> partial_match b k)
        \<and> ?d3 = [(''shipment.id'', JInt 7)] @ (''shipment.package.weight'', JStr ''25.3 lbs'') # []
        \<and> (\<forall>k\<in>fst ` set [(''shipment.id'', JInt 7)]. \<not> partial_match ''weight'' k)
        \<and> partial_match ''weight'' ''shipment.package.weight''"
    by (simp add: partial_match_str_in low)
  then show "find_value_by_keys ?d3 ?keys = JStr ''25.3 lbs''"
    by (rule mp [OF conjunct1 [OF conjunct2 [OF conjunct2 [OF find_value_three_passes]]]])
  let ?d4 = "[(''colour'', JStr ''red'')]"
  have "\<forall>b\<in>set ?keys. \<forall>k\<in>fst ` set ?d4. \<not> partial_match b k"
    by (simp add: partial_match_str_in low)
  then show "find_value_by_keys ?d4 ?keys = JNull"
    by (rule mp [OF conjunct2 [OF conjunct2 [OF conjunct2 [OF find_value_three_passes]]]])
qed

text \<open>
  Claim C10.  In the pass that ignores case, when several document keys have the lowercased
  form of the alias that hits, the value returned is that of the last of them in the document's
  order: a later key overwrites an earlier one in the lowercased table.
\<close>

theorem lower_pass_last_key_wins:
  "possible_keys = pre @ a # post \<Longrightarrow> \<forall>b\<in>set possible_keys. \<not> has_key data b \<Longrightarrow>
   \<forall>b\<in>set pre. \<forall>k\<in>fst ` set data. lower k \<noteq> lower b \<Longrightarrow>
   data = dpre @ (k, v) # dpost \<Longrightarrow> lower k = lower a \<Longrightarrow>
   \<forall>k'\<in>fst ` set dpost. lower k' \<noteq> lower a \<Longrightarrow>
   find_value_by_keys data possible_keys = v"
proof -
  assume pk: "possible_keys = pre @ a # post"
    and m1: "\<forall>b\<in>set possible_keys. \<not> has_key data b"
    and m2: "\<forall>b\<in>set pre. \<forall>k\<in>fst ` set data. lower k \<noteq> lower b"
    and d: "data = dpre @ (k, v) # dpost" and k: "lower k = lower a"
    and last: "\<forall>k'\<in>fst ` set dpost. lower k' \<noteq> lower a"
  have "k \<in> fst ` set data" unfolding d by force
  with m1 m2 have "lookup (data_lower data) (lower a)
      = Some (find_value_by_keys data (pre @ a # post))"
    unfolding pk using k by (rule find_value_lower)
  moreover have "lookup (data_lower data) (lower a) = Some v"
    unfolding d using k last by (rule lookup_data_lower_last)
  ultimately show ?thesis using pk by simp
qed

theorem lower_pass_last_key_wins_witness:
  "find_value_by_keys [(''Weight'', JInt 1), (''WEIGHT'', JInt 2)]
       [''package_weight'', ''weight''] = JInt 2"
proof -
  let ?data = "[(''Weight'', JInt 1), (''WEIGHT'', JInt 2)]"
  have keys: "[''package_weight'', ''weight''] = [''package_weight''] @ ''weight'' # []" by simp
  have m1: "\<forall>b\<in>set [''package_weight'', ''weight'']. \<not> has_key ?data b"
    by (simp add: has_key_def)
  have m2: "\<forall>b\<in>set [''package_weight'']. \<forall>k\<in>fst ` set ?data. lower k \<noteq> lower b"
    by (simp add: lower_def lower_char_def upper_chars_def lower_chars_def)
  have d: "?data = [(''Weight'', JInt 1)] @ (''WEIGHT'', JInt 2) # []" by simp
  have k: "lower ''WEIGHT'' = lower ''weight''"
    by (simp add: lower_def lower_char_def upper_chars_def lower_chars_def)
  have last: "\<forall>k'\<in>fst ` set []. lower k' \<noteq> lower ''weight''" by simp
  show ?thesis by (rule lower_pass_last_key_wins [OF keys m1 m2 d k last])
qed

subsection \<open>Flattened values and documents that are not objects\<close>

lemma flatten_items_Cons:
  "flatten_items (e # rest) parent_key separator =
     flatten_items [e] parent_key separator @ flatten_items rest parent_key separator"
proof -
  obtain key v where e: "e = (key, v)" by (cases e)
  show ?thesis
  proof (cases v)
    case (JArr xs)
    show ?thesis
    proof (cases xs)
      case Nil
      then show ?thesis using e JArr by simp
    next
      case (Cons x xs')
      then show ?thesis using e JArr by (cases x) simp_all
    qed
  qed (simp_all add: e)
qed

lemma flatten_items_append:
  "flatten_items (pre @ rest) parent_key separator =
     flatten_items pre parent_key separator @ flatten_items rest parent_key separator"
proof (induction pre)
  case Nil
  then show ?case by simp
next
  case (Cons e pre)
  have "flatten_items ((e # pre) @ rest) parent_key separator =
          flatten_items [e] parent_key separator @ flatten_items (pre @ rest) parent_key separator"
    using flatten_items_Cons [of e "pre @ rest"] by simp
  also have "\<dots> = flatten_items [e] parent_key separator
                 @ flatten_items pre parent_key separator
                 @ flatten_items rest parent_key separator"
    by (simp only: Cons.IH)
  also have "\<dots> = flatten_items (e # pre) parent_key separator
                 @ flatten_items rest parent_key separator"
    using flatten_items_Cons [of e pre] by simp
  finally show ?case .
qed

lemma flatten_items_single_stored:
  "stored_value w \<Longrightarrow>
   flatten_items [(key, w)] parent_key separator =
     [((if parent_key \<noteq> [] then parent_key @ separator @ key else key), w)]"
proof (cases w)
  case (JArr xs)
  assume st: "stored_value w"
  show ?thesis
  proof (cases xs)
    case Nil
    then show ?thesis using JArr by simp
  next
    case (Cons x xs')
    then have "\<not> is_object x" using st JArr by (simp add: stored_value_def)
    then show ?thesis using JArr Cons by (cases x) (simp_all add: is_object_def)
  qed
qed (simp_all add: stored_value_def)

lemma lookup_dict_of_last:
  "k \<notin> fst ` set post \<Longrightarrow> lookup (dict_of (pre @ (k, v) # post)) k = Some v"
proof -
  assume "k \<notin> fst ` set post"
  then have "k \<notin> fst ` set (rev post)" by simp
  then have "map_of (rev post) k = None" by (simp add: map_of_eq_None_iff)
  moreover have "lookup [] k = None" by (simp add: lookup_def)
  ultimately show ?thesis
    by (simp add: dict_of_def lookup_dict_extend map_add_def)
qed

lemma flatten_entry_stored:
  assumes "stored_value w"
    and "\<forall>p\<in>set (flatten_items post parent_key separator).
           fst p \<noteq> (if parent_key \<noteq> [] then parent_key @ separator @ key else key)"
  shows "lookup (flatten_json (JObj (pre @ (key, w) # post)) parent_key separator)
           (if parent_key \<noteq> [] then parent_key @ separator @ key else key) = Some w"
proof -
  let ?k = "if parent_key \<noteq> [] then parent_key @ separator @ key else key"
  have split: "flatten_items (pre @ (key, w) # post) parent_key separator =
          flatten_items pre parent_key separator @ (?k, w) # flatten_items post parent_key separator"
    using flatten_items_Cons [of "(key, w)" post parent_key separator]
      flatten_items_single_stored [OF assms(1), of key parent_key separator]
    by (simp add: flatten_items_append)
  have "?k \<notin> fst ` set (flatten_items post parent_key separator)"
    using assms(2) by force
  then have "lookup (dict_of (flatten_items pre parent_key separator
                     @ (?k, w) # flatten_items post parent_key separator)) ?k = Some w"
    by (rule lookup_dict_of_last)
  with split show ?thesis by (simp only: flatten_json.simps(1))
qed

text \<open>
  Claim C2, as the code has it. No value of the flattened document is a dictionary; a value is a
  scalar, or it is a list that is empty or whose first element is not a dictionary. And such a
  value is stored as it is: an entry \<open>(key, w)\<close> of the flattened dictionary whose value
  \<open>w\<close> is neither a dictionary nor a list headed by a dictionary is found in the result, unchanged,
  under its dotted key, unless a later entry of the same dictionary flattens to that very key
  (then the later one overwrites it, as \<open>dict(items)\<close> does).
\<close>

theorem flatten_values_stored:
  "((k, v) \<in> set (flatten_json data parent_key separator)
      \<longrightarrow> \<not> is_object v
          \<and> (is_scalar v \<or> (\<exists>xs. v = JArr xs \<and> (xs = [] \<or> \<not> is_object (hd xs)))))
   \<and> (stored_value w
       \<and> (\<forall>p\<in>set (flatten_items post parent_key separator).
             fst p \<noteq> (if parent_key \<noteq> [] then parent_key @ separator @ key else key))
      \<longrightarrow> lookup (flatten_json (JObj (pre @ (key, w) # post)) parent_key separator)
            (if parent_key \<noteq> [] then parent_key @ separator @ key else key) = Some w)"
proof (rule conjI; rule impI)
  assume "(k, v) \<in> set (flatten_json data parent_key separator)"
  then have "stored_value v" using flatten_stored(1) by fastforce
  then show "\<not> is_object v
          \<and> (is_scalar v \<or> (\<exists>xs. v = JArr xs \<and> (xs = [] \<or> \<not> is_object (hd xs))))"
    by (cases v) (auto simp: stored_value_def is_object_def is_scalar_def split: list.splits)
next
  assume "stored_value w
       \<and> (\<forall>p\<in>set (flatten_items post parent_key separator).
             fst p \<noteq> (if parent_key \<noteq> [] then parent_key @ separator @ key else key))"
  then show "lookup (flatten_json (JObj (pre @ (key, w) # post)) parent_key separator)
            (if parent_key \<noteq> [] then parent_key @ separator @ key else key) = Some w"
    using flatten_entry_stored [of w post parent_key separator key pre] by blast
qed

theorem flatten_values_stored_witness:
  "(''shipment.weight'', JInt 3)
     \<in> set (flatten_json
              (JObj [(''shipment'', JObj [(''weight'', JInt 3)]), (''tags'', JArr [JStr ''fragile''])])
              [] ''.'')
   \<and> is_scalar (JInt 3)
   \<and> stored_value (JArr [JStr ''fragile''])
   \<and> lookup (flatten_json
              (JObj [(''shipment'', JObj [(''weight'', JInt 3)]), (''tags'', JArr [JStr ''fragile'']),
                     (''weight'', JStr ''25.3 lbs'')])
              [] ''.'') ''tags'' = Some (JArr [JStr ''fragile''])"
proof -
  let ?doc = "JObj [(''shipment'', JObj [(''weight'', JInt 3)]), (''tags'', JArr [JStr ''fragile''])]"
  have m1: "(''shipment.weight'', JInt 3) \<in> set (flatten_json ?doc [] ''.'')"
    by (simp add: dict_of_def)
  have "is_scalar (JInt 3)"
    using mp [OF conjunct1 [OF flatten_values_stored] m1] by simp
  moreover have st: "stored_value (JArr [JStr ''fragile''])"
    by (simp add: stored_value_def is_object_def)
  moreover have "stored_value (JArr [JStr ''fragile''])
       \<and> (\<forall>p\<in>set (flatten_items [(''weight'', JStr ''25.3 lbs'')] [] ''.'').
             fst p \<noteq> (if ([]::string) \<noteq> [] then [] @ ''.'' @ ''tags'' else ''tags''))"
    using st by simp
  then have "lookup (flatten_json
        (JObj ([(''shipment'', JObj [(''weight'', JInt 3)])] @ (''tags'', JArr [JStr ''fragile''])
               # [(''weight'', JStr ''25.3 lbs'')])) [] ''.'')
        (if ([]::string) \<noteq> [] then [] @ ''.'' @ ''tags'' else ''tags'')
        = Some (JArr [JStr ''fragile''])"
    by (rule mp [OF conjunct2 [OF flatten_values_stored]])
  then have "lookup (flatten_json
              (JObj [(''shipment'', JObj [(''weight'', JInt 3)]), (''tags'', JArr [JStr ''fragile'']),
                     (''weight'', JStr ''25.3 lbs'')])
              [] ''.'') ''tags'' = Some (JArr [JStr ''fragile''])"
    by (simp del: flatten_json.simps)
  ultimately show ?thesis using m1 by (simp del: flatten_json.simps)
qed

text \<open>The claim as the specification words it fails: a list of strings is stored as a list.\<close>

theorem flatten_array_counterexample:
  "(''tags'', JArr [JStr ''fragile''])
     \<in> set (flatten_json (JObj [(''tags'', JArr [JStr ''fragile''])]) [] ''.'')
   \<and> \<not> is_scalar (JArr [JStr ''fragile''])"
  by (simp add: dict_of_def is_scalar_def)

text \<open>
  Claim C9.  A top-level value that is not a dictionary parses to a record with the metadata
  entry alone: no canonical field, and an empty list of original keys.
\<close>

theorem non_object_only_metadata:
  "\<not> is_object data \<Longrightarrow>
     parse_json_data repr parsed_at data =
       [(''_metadata'',
         JObj [(''parsed_at'', JStr parsed_at), (''original_keys'', JArr []),
               (''found_mappings'', JObj [])])]"
  by (simp add: parse_json_data_def flatten_non_object map_fields_empty)

theorem non_object_only_metadata_witness:
  "\<not> is_object (JArr [JObj [(''weight'', JStr ''25.3 lbs'')]])
   \<and> parse_json_data no_repr ''2024-01-15T10:00:00'' (JArr [JObj [(''weight'', JStr ''25.3 lbs'')]])
       = [(''_metadata'',
           JObj [(''parsed_at'', JStr ''2024-01-15T10:00:00''), (''original_keys'', JArr []),
                 (''found_mappings'', JObj [])])]"
  using non_object_only_metadata
    [of "JArr [JObj [(''weight'', JStr ''25.3 lbs'')]]" no_repr "''2024-01-15T10:00:00''"]
  by (simp add: is_object_def)

subsection \<open>A matched key that holds no value\<close>

lemma weight_in_table:
  "(''package_weight'',
      [''package_weight'', ''weight'', ''pkg_weight'', ''total_weight'', ''gross_weight'',
       ''shipment_weight'', ''parcel_weight'', ''item_weight'']) \<in> set field_mappings"
  by (simp add: field_mappings_def)

text \<open>
  Claim C3, as the code has it.  The normalizer turns \<^verbatim>\<open>None\<close> into the empty string, but the
  pipeline never hands it \<^verbatim>\<open>None\<close>: a field whose resolution returns \<^verbatim>\<open>None\<close>, as it does
  when the key it matches holds \<^verbatim>\<open>None\<close>, is left out of the record.
\<close>

theorem null_resolution_omits_field:
  "normalize_value repr field JNull = []
   \<and> ((field, aliases) \<in> set field_mappings
        \<and> find_value_by_keys (flatten_json data [] ''.'') aliases = JNull
      \<longrightarrow> lookup (parse_json_data repr parsed_at data) field = None)"
proof (intro conjI impI)
  show "normalize_value repr field JNull = []" by (simp add: normalize_value_def)
next
  assume "(field, aliases) \<in> set field_mappings
        \<and> find_value_by_keys (flatten_json data [] ''.'') aliases = JNull"
  then show "lookup (parse_json_data repr parsed_at data) field = None"
    using parse_lookup [of field aliases repr parsed_at data] by simp
qed

theorem null_resolution_omits_field_witness:
  "(''package_weight'',
      [''package_weight'', ''weight'', ''pkg_weight'', ''total_weight'', ''gross_weight'',
       ''shipment_weight'', ''parcel_weight'', ''item_weight'']) \<in> set field_mappings
   \<and> find_value_by_keys (flatten_json (JObj [(''weight'', JNull)]) [] ''.'')
        [''package_weight'', ''weight'', ''pkg_weight'', ''total_weight'', ''gross_weight'',
         ''shipment_weight'', ''parcel_weight'', ''item_weight''] = JNull
   \<and> lookup (parse_json_data no_repr ''2024-01-15T10:00:00'' (JObj [(''weight'', JNull)]))
        ''package_weight'' = None"
proof -
  have found: "find_value_by_keys (flatten_json (JObj [(''weight'', JNull)]) [] ''.'')
        [''package_weight'', ''weight'', ''pkg_weight'', ''total_weight'', ''gross_weight'',
         ''shipment_weight'', ''parcel_weight'', ''item_weight''] = JNull"
    by (simp add: dict_of_def find_value_by_keys_def has_key_def lookup_def)
  show ?thesis
    using mp [OF conjunct2 [OF null_resolution_omits_field], OF conjI [OF weight_in_table found]]
      weight_in_table found by simp
qed

text \<open>The claim as the specification words it fails: the key \<^verbatim>\<open>weight\<close> is matched, it holds
  \<^verbatim>\<open>None\<close>, and the record has no weight rather than an empty one.\<close>

theorem null_value_counterexample:
  "exact_pass (flatten_json (JObj [(''weight'', JNull)]) [] ''.'')
      [''package_weight'', ''weight''] = Some JNull
   \<and> lookup (parse_json_data no_repr ''2024-01-15T10:00:00'' (JObj [(''weight'', JNull)]))
        ''package_weight'' \<noteq> Some (JStr [])"
proof
  show "exact_pass (flatten_json (JObj [(''weight'', JNull)]) [] ''.'')
      [''package_weight'', ''weight''] = Some JNull"
    by (simp add: dict_of_def has_key_def lookup_def)
  have "find_value_by_keys (flatten_json (JObj [(''weight'', JNull)]) [] ''.'')
        [''package_weight'', ''weight'', ''pkg_weight'', ''total_weight'', ''gross_weight'',
         ''shipment_weight'', ''parcel_weight'', ''item_weight''] = JNull"
    by (simp add: dict_of_def find_value_by_keys_def has_key_def lookup_def)
  then show "lookup (parse_json_data no_repr ''2024-01-15T10:00:00'' (JObj [(''weight'', JNull)]))
        ''package_weight'' \<noteq> Some (JStr [])"
    by (simp add: parse_lookup [OF weight_in_table])
qed

subsection \<open>Weights\<close>

lemma weight_search_none: "\<forall>c\<in>set s. \<not> is_digit c \<Longrightarrow> weight_search s = None"
proof -
  assume "\<forall>c\<in>set s. \<not> is_digit c"
  then have dw: "dropWhile (\<lambda>c. \<not> is_digit c) s = []" by simp
  show ?thesis unfolding weight_search_def dw by simp
qed

lemma takeWhile_digits:
  "\<forall>c\<in>set ds. is_digit c \<Longrightarrow> \<not> begins_with is_digit rest \<Longrightarrow>
   takeWhile is_digit (ds @ rest) = ds \<and> dropWhile is_digit (ds @ rest) = rest"
  by (cases rest) (simp_all add: begins_with_def takeWhile_append2 dropWhile_append2)

lemma weight_search_token:
  assumes "\<forall>c\<in>set pre. \<not> is_digit c" and "ds \<noteq> []" and "\<forall>c\<in>set ds. is_digit c"
    and "\<not> begins_with is_digit rest" and "\<not> begins_with ((=) CHR ''.'') rest"
  shows "weight_search (pre @ ds @ rest) = Some ds"
proof -
  obtain d ds' where ds: "ds = d # ds'" using assms(2) by (cases ds) auto
  then have d: "is_digit d" using assms(3) by simp
  have "dropWhile (\<lambda>c. \<not> is_digit c) (pre @ ds @ rest) = d # (ds' @ rest)"
    using assms(1) d by (simp add: dropWhile_append2 ds)
  moreover have "takeWhile is_digit (d # (ds' @ rest)) = ds"
    and "dropWhile is_digit (d # (ds' @ rest)) = rest"
    using takeWhile_digits [OF assms(3,4)] by (simp_all add: ds)
  ultimately show ?thesis using assms(5)
    by (cases rest) (simp_all add: weight_search_def begins_with_def)
qed

lemma weight_search_token_point:
  assumes "\<forall>c\<in>set pre. \<not> is_digit c" and "ds \<noteq> []" and "\<forall>c\<in>set ds. is_digit c"
    and "\<forall>c\<in>set fs. is_digit c" and "\<not> begins_with is_digit rest"
  shows "weight_search (pre @ ds @ CHR ''.'' # fs @ rest) = Some (ds @ CHR ''.'' # fs)"
proof -
  obtain d ds' where ds: "ds = d # ds'" using assms(2) by (cases ds) auto
  then have d: "is_digit d" using assms(3) by simp
  have nd: "\<not> begins_with is_digit (CHR ''.'' # fs @ rest)"
    by (simp add: begins_with_def is_digit_def)
  have "dropWhile (\<lambda>c. \<not> is_digit c) (pre @ ds @ CHR ''.'' # fs @ rest)
          = d # (ds' @ CHR ''.'' # fs @ rest)"
    using assms(1) d by (simp add: dropWhile_append2 ds)
  moreover have "takeWhile is_digit (d # (ds' @ CHR ''.'' # fs @ rest)) = ds"
    and "dropWhile is_digit (d # (ds' @ CHR ''.'' # fs @ rest)) = CHR ''.'' # fs @ rest"
    using takeWhile_digits [OF assms(3) nd] by (simp_all add: ds)
  moreover have "takeWhile is_digit (fs @ rest) = fs"
    using takeWhile_digits [OF assms(4,5)] by simp
  ultimately show ?thesis by (simp add: weight_search_def)
qed

lemma normalize_weight:
  "v \<noteq> JNull \<Longrightarrow>
   normalize_value repr ''package_weight'' v =
     (case weight_search (strip (py_str repr v)) of
        Some m \<Rightarrow> m | None \<Rightarrow> strip (py_str repr v))"
  by (simp add: normalize_value_def Let_def)

lemma strip_example: "strip ''25.3 lbs'' = ''25.3 lbs''"
  by (simp add: strip_def is_space_def)

lemma weight_example: "weight_search ''25.3 lbs'' = Some ''25.3''"
  by (simp add: weight_search_def is_digit_def)

lemma weight_document_example:
  "lookup (parse_json_data repr parsed_at (JObj [(''weight'', JStr ''25.3 lbs'')]))
     ''package_weight'' = Some (JStr ''25.3'')"
proof -
  have "find_value_by_keys (flatten_json (JObj [(''weight'', JStr ''25.3 lbs'')]) [] ''.'')
        [''package_weight'', ''weight'', ''pkg_weight'', ''total_weight'', ''gross_weight'',
         ''shipment_weight'', ''parcel_weight'', ''item_weight''] = JStr ''25.3 lbs''"
    by (simp add: dict_of_def find_value_by_keys_def has_key_def lookup_def)
  then show ?thesis
    by (simp add: parse_lookup [OF weight_in_table] normalize_weight py_str_def
        strip_example weight_example)
qed

text \<open>
  Claim C5, as the code has it.  For a raw value other than \<^verbatim>\<open>None\<close> the weight is taken from
  the trimmed text of the value.  With no digit in it, the text itself is the result.
  Otherwise the result is the token at the first digit: the digits from there on, and, when a
  point follows them, the point and the digits after it.  A point with no digit before it is
  not part of a token.  The document \<^verbatim>\<open>{"weight": "25.3 lbs"}\<close> gives the weight
  \<^verbatim>\<open>25.3\<close>.
\<close>

theorem weight_first_numeric_token:
  "v \<noteq> JNull \<longrightarrow>
    ((\<forall>c\<in>set (strip (py_str repr v)). \<not> is_digit c)
       \<longrightarrow> normalize_value repr ''package_weight'' v = strip (py_str repr v))
    \<and> (strip (py_str repr v) = pre @ ds @ rest
        \<and> (\<forall>c\<in>set pre. \<not> is_digit c) \<and> ds \<noteq> [] \<and> (\<forall>c\<in>set ds. is_digit c)
        \<and> \<not> begins_with is_digit rest \<and> \<not> begins_with ((=) CHR ''.'') rest
       \<longrightarrow> normalize_value repr ''package_weight'' v = ds)
    \<and> (strip (py_str repr v) = pre @ ds @ CHR ''.'' # fs @ rest
        \<and> (\<forall>c\<in>set pre. \<not> is_digit c) \<and> ds \<noteq> [] \<and> (\<forall>c\<in>set ds. is_digit c)
        \<and> (\<forall>c\<in>set fs. is_digit c) \<and> \<not> begins_with is_digit rest
       \<longrightarrow> normalize_value repr ''package_weight'' v = ds @ CHR ''.'' # fs)
    \<and> lookup (parse_json_data repr parsed_at (JObj [(''weight'', JStr ''25.3 lbs'')]))
         ''package_weight'' = Some (JStr ''25.3'')"
proof (intro impI conjI; (elim conjE)?)
  assume "v \<noteq> JNull" and "\<forall>c\<in>set (strip (py_str repr v)). \<not> is_digit c"
  then show "normalize_value repr ''package_weight'' v = strip (py_str repr v)"
    by (simp add: normalize_weight weight_search_none)
next
  assume "v \<noteq> JNull" and "strip (py_str repr v) = pre @ ds @ rest"
    and "\<forall>c\<in>set pre. \<not> is_digit c" and "ds \<noteq> []" and "\<forall>c\<in>set ds. is_digit c"
    and "\<not> begins_with is_digit rest" and "\<not> begins_with ((=) CHR ''.'') rest"
  then show "normalize_value repr ''package_weight'' v = ds"
    by (simp add: normalize_weight weight_search_token)
next
  assume "v \<noteq> JNull" and "strip (py_str repr v) = pre @ ds @ CHR ''.'' # fs @ rest"
    and "\<forall>c\<in>set pre. \<not> is_digit c" and "ds \<noteq> []" and "\<forall>c\<in>set ds. is_digit c"
    and "\<forall>c\<in>set fs. is_digit c" and "\<not> begins_with is_digit rest"
  then show "normalize_value repr ''package_weight'' v = ds @ CHR ''.'' # fs"
    by (simp add: normalize_weight weight_search_token_point)
next
  show "lookup (parse_json_data repr parsed_at (JObj [(''weight'', JStr ''25.3 lbs'')]))
         ''package_weight'' = Some (JStr ''25.3'')"
    by (rule weight_document_example)
qed

theorem weight_first_numeric_token_witness:
  "normalize_value no_repr ''package_weight'' (JStr ''heavy'') = ''heavy''
   \<and> normalize_value no_repr ''package_weight'' (JStr '' 45 lbs'') = ''45''
   \<and> normalize_value no_repr ''package_weight'' (JStr ''about 12.5 kg'') = ''12.5''
   \<and> normalize_value no_repr ''package_weight'' (JInt 45) = ''45''"
proof (intro conjI)
  have n1: "JStr ''heavy'' \<noteq> JNull" and n2: "JStr '' 45 lbs'' \<noteq> JNull"
    and n3: "JStr ''about 12.5 kg'' \<noteq> JNull" and n4: "JInt 45 \<noteq> JNull"
    by simp_all
  have s1: "strip (py_str no_repr (JStr ''heavy'')) = ''heavy''"
    by (simp add: py_str_def strip_def is_space_def)
  have "\<forall>c\<in>set (strip (py_str no_repr (JStr ''heavy''))). \<not> is_digit c"
    unfolding s1 by (simp add: is_digit_def)
  then have "normalize_value no_repr ''package_weight'' (JStr ''heavy'')
      = strip (py_str no_repr (JStr ''heavy''))"
    by (rule mp [OF conjunct1 [OF mp [OF weight_first_numeric_token n1]]])
  then show "normalize_value no_repr ''package_weight'' (JStr ''heavy'') = ''heavy''"
    by (simp only: s1)
  have s2: "strip (py_str no_repr (JStr '' 45 lbs'')) = ''45 lbs''"
    by (simp add: py_str_def strip_def is_space_def)
  have "strip (py_str no_repr (JStr '' 45 lbs'')) = [] @ ''45'' @ '' lbs''
      \<and> (\<forall>c\<in>set []. \<not> is_digit c) \<and> ''45'' \<noteq> [] \<and> (\<forall>c\<in>set ''45''. is_digit c)
      \<and> \<not> begins_with is_digit '' lbs'' \<and> \<not> begins_with ((=) CHR ''.'') '' lbs''"
    unfolding s2 by (simp add: is_digit_def begins_with_def)
  then show "normalize_value no_repr ''package_weight'' (JStr '' 45 lbs'') = ''45''"
    by (rule mp [OF conjunct1 [OF conjunct2 [OF mp [OF weight_first_numeric_token n2]]]])
  have s3: "strip (py_str no_repr (JStr ''about 12.5 kg'')) = ''about 12.5 kg''"
    by (simp add: py_str_def strip_def is_space_def)
  have "strip (py_str no_repr (JStr ''about 12.5 kg'')) = ''about '' @ ''12'' @ CHR ''.'' # ''5'' @ '' kg''
      \<and> (\<forall>c\<in>set ''about ''. \<not> is_digit c) \<and> ''12'' \<noteq> [] \<and> (\<forall>c\<in>set ''12''. is_digit c)
      \<and> (\<forall>c\<in>set ''5''. is_digit c) \<and> \<not> begins_with is_digit '' kg''"
    unfolding s3 by (simp add: is_digit_def begins_with_def)
  then have "normalize_value no_repr ''package_weight'' (JStr ''about 12.5 kg'')
               = ''12'' @ CHR ''.'' # ''5''"
    by (rule mp [OF conjunct1 [OF conjunct2 [OF conjunct2
          [OF mp [OF weight_first_numeric_token n3]]]]])
  then show "normalize_value no_repr ''package_weight'' (JStr ''about 12.5 kg'') = ''12.5''"
    by simp
  have s4: "strip (py_str no_repr (JInt 45)) = ''45''"
    by (simp add: py_str_def str_of_int_def digits_of_nat.simps digit_char_def strip_def
        is_space_def)
  have "strip (py_str no_repr (JInt 45)) = [] @ ''45'' @ []
      \<and> (\<forall>c\<in>set []. \<not> is_digit c) \<and> ''45'' \<noteq> [] \<and> (\<forall>c\<in>set ''45''. is_digit c)
      \<and> \<not> begins_with is_digit [] \<and> \<not> begins_with ((=) CHR ''.'') []"
    unfolding s4 by (simp add: is_digit_def begins_with_def)
  then show "normalize_value no_repr ''package_weight'' (JInt 45) = ''45''"
    by (rule mp [OF conjunct1 [OF conjunct2 [OF mp [OF weight_first_numeric_token n4]]]])
qed

text \<open>The claim as the specification words it fails: with optional leading digits the first
  token of \<^verbatim>\<open>.5 kg\<close> is \<^verbatim>\<open>.5\<close>, and the code returns \<^verbatim>\<open>5\<close>.\<close>

theorem weight_token_counterexample:
  "normalize_value no_repr ''package_weight'' (JStr ''.5 kg'') = ''5''
   \<and> spec_normalize_weight ''.5 kg'' = ''.5''"
  by (simp add: normalize_value_def py_str_def strip_def is_space_def weight_search_def
      is_digit_def spec_normalize_weight_def spec_token_at_def)

subsection \<open>Validation\<close>

lemma check_required_result:
  "check_required data fs report =
     report\<lparr>is_valid := is_valid report \<and> (\<forall>f\<in>set fs. \<not> missing_or_falsy data f),
            missing_required := missing_required report @ filter (missing_or_falsy data) fs\<rparr>"
  by (induction fs arbitrary: report) auto

lemma check_found_result:
  "check_found data fs report =
     report\<lparr>found_fields := found_fields report @ filter (\<lambda>f. \<not> missing_or_falsy data f) fs\<rparr>"
  by (induction fs arbitrary: report) auto

lemma canonical_lookup:
  "canonical_record data \<Longrightarrow> f \<in> fst ` set field_mappings \<Longrightarrow>
   lookup data f = None \<or> (\<exists>s. lookup data f = Some (JStr s))"
proof -
  assume c: "canonical_record data" and "f \<in> fst ` set field_mappings"
  then have f: "f \<in> set (map fst field_mappings)" by simp
  from c have "\<forall>g\<in>set (map fst field_mappings).
      case lookup data g of None \<Rightarrow> True
      | Some v \<Rightarrow> (case v of JStr s \<Rightarrow> True | _ \<Rightarrow> False)"
    by (simp only: canonical_record_def list_all_iff)
  from this f have ok: "case lookup data f of None \<Rightarrow> True
                 | Some v \<Rightarrow> (case v of JStr s \<Rightarrow> True | _ \<Rightarrow> False)"
    by (rule bspec)
  show ?thesis
  proof (cases "lookup data f")
    case None
    then show ?thesis by simp
  next
    case (Some v)
    then show ?thesis using ok by (cases v) simp_all
  qed
qed

lemma canonical_missing:
  "canonical_record data \<Longrightarrow> f \<in> fst ` set field_mappings \<Longrightarrow>
   missing_or_falsy data f = missing_or_empty data f"
  using canonical_lookup [of data f]
  by (auto simp: missing_or_falsy_def missing_or_empty_def truthy_def)

lemma required_are_fields: "set required_fields \<subseteq> fst ` set field_mappings"
  by (simp add: required_fields_def field_mappings_def)

lemma weight_is_field: "''package_weight'' \<in> fst ` set field_mappings"
  by (simp add: field_mappings_def)

lemma date_is_field: "''shipping_date'' \<in> fst ` set field_mappings"
  by (simp add: field_mappings_def)

lemma weight_warnings_canonical:
  assumes "canonical_record data"
  shows "\<exists>ws. weight_warnings float_of_str data = Inr ws \<and>
     (\<forall>w. lookup data ''package_weight'' = Some (JStr w) \<and> float_of_str w = None
        \<longrightarrow> ''Package weight is not a valid number'' \<in> set ws)"
  using canonical_lookup [OF assms weight_is_field]
  by (auto simp: weight_warnings_def py_float_def split: option.splits)

lemma date_warnings_canonical:
  assumes "canonical_record data"
  shows "\<exists>ws. date_warnings now data = Inr ws \<and>
     (\<forall>d. lookup data ''shipping_date'' = Some (JStr d) \<and> strptime d ''%Y-%m-%d'' = None
        \<longrightarrow> ''Shipping date format is invalid'' \<in> set ws)"
  using canonical_lookup [OF assms date_is_field]
  by (auto simp: date_warnings_def split: option.splits)

lemma validate_canonical:
  assumes "canonical_record data"
  shows "\<exists>ws ws'. weight_warnings float_of_str data = Inr ws \<and> date_warnings now data = Inr ws'
     \<and> validate_parsed_data float_of_str now data =
         Inr \<lparr>is_valid = (\<forall>f\<in>set required_fields. \<not> missing_or_empty data f),
              missing_required = filter (missing_or_empty data) required_fields,
              found_fields = filter (\<lambda>f. \<not> missing_or_empty data f) (map fst field_mappings),
              warnings = ws @ ws'\<rparr>"
proof -
  obtain ws where ws: "weight_warnings float_of_str data = Inr ws"
    using weight_warnings_canonical [OF assms] by blast
  obtain ws' where ws': "date_warnings now data = Inr ws'"
    using date_warnings_canonical [OF assms] by blast
  have req: "\<forall>f\<in>set required_fields. missing_or_falsy data f = missing_or_empty data f"
    using canonical_missing [OF assms] required_are_fields by blast
  have fld: "\<forall>f\<in>set (map fst field_mappings). missing_or_falsy data f = missing_or_empty data f"
    using canonical_missing [OF assms] by simp
  have f1: "filter (missing_or_falsy data) required_fields
              = filter (missing_or_empty data) required_fields"
    using req by (intro filter_cong) auto
  have f2: "filter (\<lambda>f. \<not> missing_or_falsy data f) (map fst field_mappings)
              = filter (\<lambda>f. \<not> missing_or_empty data f) (map fst field_mappings)"
    using fld by (intro filter_cong) auto
  have "validate_parsed_data float_of_str now data =
         Inr \<lparr>is_valid = (\<forall>f\<in>set required_fields. \<not> missing_or_falsy data f),
              missing_required = filter (missing_or_falsy data) required_fields,
              found_fields = filter (\<lambda>f. \<not> missing_or_falsy data f) (map fst field_mappings),
              warnings = ws @ ws'\<rparr>"
    by (simp add: validate_parsed_data_def Let_def ws ws' check_required_result
        check_found_result)
  then show ?thesis using ws ws' req by (simp add: f1 f2)
qed

text \<open>
  Claim C6.  For a canonical record the validator returns a report in which \<open>is_valid\<close> is
  false exactly when a required field is missing or empty, \<open>missing_required\<close> lists those
  required fields in order, and \<open>found_fields\<close> lists exactly the canonical fields that are
  present with a non-empty value.  A record without a shipping date is invalid and has
  \<^verbatim>\<open>shipping_date\<close> among the missing fields.
\<close>

theorem validate_required_and_found:
  "canonical_record data \<Longrightarrow>
   \<exists>report. validate_parsed_data float_of_str now data = Inr report
     \<and> (is_valid report \<longleftrightarrow> (\<forall>f\<in>set required_fields. \<not> missing_or_empty data f))
     \<and> missing_required report = filter (missing_or_empty data) required_fields
     \<and> found_fields report = filter (\<lambda>f. \<not> missing_or_empty data f) (map fst field_mappings)
     \<and> (lookup data ''shipping_date'' = None
          \<longrightarrow> \<not> is_valid report \<and> ''shipping_date'' \<in> set (missing_required report))"
proof -
  assume "canonical_record data"
  then obtain ws ws' where
    "validate_parsed_data float_of_str now data =
         Inr \<lparr>is_valid = (\<forall>f\<in>set required_fields. \<not> missing_or_empty data f),
              missing_required = filter (missing_or_empty data) required_fields,
              found_fields = filter (\<lambda>f. \<not> missing_or_empty data f) (map fst field_mappings),
              warnings = ws @ ws'\<rparr>"
    using validate_canonical by blast
  then show ?thesis
    by (auto simp: missing_or_empty_def required_fields_def)
qed

theorem validate_required_and_found_witness:
  "canonical_record
      [(''shipper_name'', JStr ''ABC Corp''), (''recipient_name'', JStr ''XYZ Ltd''),
       (''package_weight'', JStr ''25.3''), (''special_instructions'', JStr [])]
   \<and> (\<exists>report.
        validate_parsed_data no_float epoch_default
          [(''shipper_name'', JStr ''ABC Corp''), (''recipient_name'', JStr ''XYZ Ltd''),
           (''package_weight'', JStr ''25.3''), (''special_instructions'', JStr [])] = Inr report
        \<and> \<not> is_valid report
        \<and> missing_required report = [''shipping_date'']
        \<and> found_fields report = [''shipper_name'', ''recipient_name'', ''package_weight''])"
proof -
  let ?data = "[(''shipper_name'', JStr ''ABC Corp''), (''recipient_name'', JStr ''XYZ Ltd''),
       (''package_weight'', JStr ''25.3''), (''special_instructions'', JStr [])]"
  have c: "canonical_record ?data"
    by (simp add: canonical_record_def field_mappings_def lookup_def)
  have m: "filter (missing_or_empty ?data) required_fields = [''shipping_date'']"
    by (simp add: missing_or_empty_def required_fields_def lookup_def)
  have f: "filter (\<lambda>f. \<not> missing_or_empty ?data f) (map fst field_mappings)
             = [''shipper_name'', ''recipient_name'', ''package_weight'']"
    by (simp add: missing_or_empty_def field_mappings_def lookup_def)
  have none: "lookup ?data ''shipping_date'' = None" by (simp add: lookup_def)
  show ?thesis
    using validate_required_and_found [OF c, of no_float epoch_default]
  proof (elim exE conjE)
    fix report
    assume v: "validate_parsed_data no_float epoch_default ?data = Inr report"
      and mr: "missing_required report = filter (missing_or_empty ?data) required_fields"
      and ff: "found_fields report
                 = filter (\<lambda>f. \<not> missing_or_empty ?data f) (map fst field_mappings)"
      and sd: "lookup ?data ''shipping_date'' = None
          \<longrightarrow> \<not> is_valid report \<and> ''shipping_date'' \<in> set (missing_required report)"
    have nv: "\<not> is_valid report" using sd none by simp
    have mr': "missing_required report = [''shipping_date'']" using mr by (simp only: m)
    have ff': "found_fields report = [''shipper_name'', ''recipient_name'', ''package_weight'']"
      using ff by (simp only: f)
    show ?thesis using c v nv mr' ff' by (intro conjI exI [of _ report])
  qed
qed

text \<open>
  Claim C7.  For a canonical record the validator returns a report and raises nothing: a
  weight that is not a number and a date that does not parse become warnings, and a required
  field that is missing or empty becomes an entry of \<open>missing_required\<close>.
\<close>

theorem validate_never_raises:
  "canonical_record data \<Longrightarrow>
   \<exists>report. validate_parsed_data float_of_str now data = Inr report
     \<and> (\<forall>w. lookup data ''package_weight'' = Some (JStr w) \<and> float_of_str w = None
          \<longrightarrow> ''Package weight is not a valid number'' \<in> set (warnings report))
     \<and> (\<forall>d. lookup data ''shipping_date'' = Some (JStr d) \<and> strptime d ''%Y-%m-%d'' = None
          \<longrightarrow> ''Shipping date format is invalid'' \<in> set (warnings report))
     \<and> (\<forall>f\<in>set required_fields. missing_or_empty data f
          \<longrightarrow> f \<in> set (missing_required report))"
proof -
  assume c: "canonical_record data"
  then obtain ws ws' where w: "weight_warnings float_of_str data = Inr ws"
    and d: "date_warnings now data = Inr ws'"
    and v: "validate_parsed_data float_of_str now data =
         Inr \<lparr>is_valid = (\<forall>f\<in>set required_fields. \<not> missing_or_empty data f),
              missing_required = filter (missing_or_empty data) required_fields,
              found_fields = filter (\<lambda>f. \<not> missing_or_empty data f) (map fst field_mappings),
              warnings = ws @ ws'\<rparr>"
    using validate_canonical by blast
  show ?thesis
    using weight_warnings_canonical [OF c, of float_of_str] date_warnings_canonical [OF c, of now]
    by (simp add: v w d)
qed

theorem validate_never_raises_witness:
  "canonical_record [(''package_weight'', JStr ''heavy''), (''shipping_date'', JStr ''tomorrow'')]
   \<and> (\<exists>report.
        validate_parsed_data no_float epoch_default
          [(''package_weight'', JStr ''heavy''), (''shipping_date'', JStr ''tomorrow'')] = Inr report
        \<and> ''Package weight is not a valid number'' \<in> set (warnings report)
        \<and> ''Shipping date format is invalid'' \<in> set (warnings report)
        \<and> ''shipper_name'' \<in> set (missing_required report))"
proof -
  let ?data = "[(''package_weight'', JStr ''heavy''), (''shipping_date'', JStr ''tomorrow'')]"
  have c: "canonical_record ?data"
    by (simp add: canonical_record_def field_mappings_def lookup_def)
  have w: "lookup ?data ''package_weight'' = Some (JStr ''heavy'') \<and> no_float ''heavy'' = None"
    by (simp add: lookup_def no_float_def)
  have d: "lookup ?data ''shipping_date'' = Some (JStr ''tomorrow'')
           \<and> strptime ''tomorrow'' ''%Y-%m-%d'' = None"
    by (simp add: lookup_def date_eval)
  have r: "''shipper_name'' \<in> set required_fields" "missing_or_empty ?data ''shipper_name''"
    by (simp_all add: required_fields_def missing_or_empty_def lookup_def)
  show ?thesis
    using validate_never_raises [OF c, of no_float epoch_default]
  proof (elim exE conjE)
    fix report
    assume v: "validate_parsed_data no_float epoch_default ?data = Inr report"
      and pw: "\<forall>w. lookup ?data ''package_weight'' = Some (JStr w) \<and> no_float w = None
          \<longrightarrow> ''Package weight is not a valid number'' \<in> set (warnings report)"
      and pd: "\<forall>d. lookup ?data ''shipping_date'' = Some (JStr d)
            \<and> strptime d ''%Y-%m-%d'' = None
          \<longrightarrow> ''Shipping date format is invalid'' \<in> set (warnings report)"
      and pm: "\<forall>f\<in>set required_fields. missing_or_empty ?data f
          \<longrightarrow> f \<in> set (missing_required report)"
    have a: "''Package weight is not a valid number'' \<in> set (warnings report)"
      using mp [OF spec [OF pw] w] .
    have b: "''Shipping date format is invalid'' \<in> set (warnings report)"
      using mp [OF spec [OF pd] d] .
    have e: "''shipper_name'' \<in> set (missing_required report)"
      using mp [OF bspec [OF pm r(1)] r(2)] .
    show ?thesis using c v a b e by (intro conjI exI [of _ report])
  qed
qed

text \<open>The exception branch of the model is not empty: on a dictionary that is not a
  canonical record, a date that is not a string escapes as a \<^verbatim>\<open>TypeError\<close>.\<close>

lemma raises_example:
  "validate_parsed_data float_of_str now [(''shipping_date'', JInt 20240115)] = Inl TypeError"
  by (simp add: validate_parsed_data_def Let_def weight_warnings_def date_warnings_def lookup_def)

subsection \<open>Digits\<close>

lemma is_digit_digit_char: "is_digit (digit_char n)"
proof -
  have "n mod 10 < length ''0123456789''" by simp
  then have "''0123456789'' ! (n mod 10) \<in> set ''0123456789''" by (rule nth_mem)
  then show ?thesis by (simp only: is_digit_def digit_char_def)
qed

lemma digits_of_nat_digits: "\<forall>c\<in>set (digits_of_nat n). is_digit c"
proof (induction n rule: digits_of_nat.induct)
  case (1 n)
  then show ?case
    by (subst digits_of_nat.simps) (auto simp: is_digit_digit_char)
qed

lemma length_digits_of_nat: "n < 10 ^ k \<Longrightarrow> 0 < k \<Longrightarrow> length (digits_of_nat n) \<le> k"
proof (induction n arbitrary: k rule: digits_of_nat.induct)
  case (1 n)
  show ?case
  proof (cases "n < 10")
    case True
    have "digits_of_nat n = [digit_char n]" using True by (subst digits_of_nat.simps) simp
    then show ?thesis using "1.prems"(2) by simp
  next
    case False
    obtain j where k: "k = Suc j" using "1.prems"(2) by (cases k) auto
    have "0 < j"
    proof (rule ccontr)
      assume "\<not> 0 < j"
      then have "n < 10" using "1.prems"(1) k by simp
      then show False using False by simp
    qed
    have "n < 10 ^ j * 10" using "1.prems"(1) k by simp
    then have "n div 10 < 10 ^ j" by (rule less_mult_imp_div_less)
    then have ih: "length (digits_of_nat (n div 10)) \<le> j"
      using "1.IH" [OF False] \<open>0 < j\<close> by blast
    have "digits_of_nat n = digits_of_nat (n div 10) @ [digit_char (n mod 10)]"
      using False by (subst digits_of_nat.simps) simp
    then show ?thesis using ih k by simp
  qed
qed

lemma zero_pad_form:
  assumes "n < 10 ^ k" and "0 < k"
  shows "length (zero_pad k n) = k" and "\<forall>c\<in>set (zero_pad k n). is_digit c"
proof -
  have len: "length (digits_of_nat n) \<le> k" using assms by (rule length_digits_of_nat)
  then show "length (zero_pad k n) = k" by (simp add: zero_pad_def)
  have "is_digit CHR ''0''" by (simp add: is_digit_def)
  then show "\<forall>c\<in>set (zero_pad k n). is_digit c"
    using digits_of_nat_digits [of n] by (auto simp: zero_pad_def)
qed

lemma digit_val_digit_char: "n < 10 \<Longrightarrow> digit_val (digit_char n) = n"
proof -
  assume "n < 10"
  then have "n \<in> {0, 1, 2, 3, 4, 5, 6, 7, 8, 9}" by auto
  then show ?thesis by (auto simp: digit_val_def digit_char_def)
qed

lemma digit_char_digit_val: "is_digit c \<Longrightarrow> digit_char (digit_val c) = c \<and> digit_val c < 10"
  by (auto simp: is_digit_def digit_val_def digit_char_def)

lemma num_of_snoc: "num_of (ds @ [c]) = 10 * num_of ds + digit_val c"
  by (simp add: num_of_def)

lemma digits_of_nat_step:
  "0 < n \<Longrightarrow> d < 10 \<Longrightarrow> digits_of_nat (10 * n + d) = digits_of_nat n @ [digit_char d]"
  by (subst digits_of_nat.simps) simp

lemma digits_of_nat_small: "n < 10 \<Longrightarrow> digits_of_nat n = [digit_char n]"
  by (subst digits_of_nat.simps) simp

lemma zero_pad_num_of:
  "\<forall>c\<in>set ds. is_digit c \<Longrightarrow> ds \<noteq> [] \<Longrightarrow> zero_pad (length ds) (num_of ds) = ds"
proof (induction ds rule: rev_induct)
  case Nil
  then show ?case by simp
next
  case (snoc c ds)
  have "is_digit c" using snoc.prems(1) by simp
  then have c: "digit_char (digit_val c) = c" "digit_val c < 10"
    using digit_char_digit_val by auto
  show ?case
  proof (cases "ds = []")
    case True
    have "num_of [c] = digit_val c" by (simp add: num_of_def)
    then have "digits_of_nat (num_of [c]) = [c]" using c by (simp add: digits_of_nat_small)
    then show ?thesis using True by (simp add: zero_pad_def)
  next
    case False
    then have ih: "zero_pad (length ds) (num_of ds) = ds" using snoc by simp
    show ?thesis
    proof (cases "num_of ds = 0")
      case True
      then have "num_of (ds @ [c]) = digit_val c" by (simp add: num_of_snoc)
      then have new: "digits_of_nat (num_of (ds @ [c])) = [c]"
        using c by (simp add: digits_of_nat_small)
      have old: "digits_of_nat (num_of ds) = ''0''"
        using True by (simp add: digits_of_nat_small digit_char_def)
      have "replicate (length ds - 1) CHR ''0'' @ ''0'' = ds"
        using ih old by (simp add: zero_pad_def)
      then have "replicate (length ds) CHR ''0'' = ds"
        using False by (cases ds) (simp_all add: replicate_append_same)
      then show ?thesis using new by (simp add: zero_pad_def)
    next
      case False
      then have "digits_of_nat (num_of (ds @ [c])) = digits_of_nat (num_of ds) @ [c]"
        using c by (simp add: num_of_snoc digits_of_nat_step)
      then show ?thesis using ih by (simp add: zero_pad_def)
    qed
  qed
qed

subsection \<open>The date parser\<close>

lemma match_cands_Some:
  "match_cands d ds cs dt = Some res \<Longrightarrow>
   \<exists>v r. (v, r) \<in> set cs \<and> match_dirs ds r (set_field d v dt) = Some res"
proof (induction cs)
  case Nil
  then show ?case by simp
next
  case (Cons p cs)
  obtain v r where p: "p = (v, r)" by (cases p)
  show ?case
  proof (cases "match_dirs ds r (set_field d v dt)")
    case None
    then have "match_cands d ds cs dt = Some res" using Cons.prems p by simp
    then show ?thesis using Cons.IH by auto
  next
    case (Some res')
    then have "res' = res" using Cons.prems p by simp
    then show ?thesis using Some p by auto
  qed
qed

lemma match_dirs_Cons_Some:
  "match_dirs (d # ds) s dt = Some res \<Longrightarrow>
   \<exists>v r. (v, r) \<in> set (candidates d s) \<and> match_dirs ds r (set_field d v dt) = Some res"
  using match_cands_Some [of d ds "candidates d s" dt res] by simp

lemma alt2_D:
  "(v, r) \<in> set (alt2 p q s) \<Longrightarrow> \<exists>a b. s = a # b # r \<and> p a \<and> q b \<and> v = num_of [a, b]"
  by (auto simp: alt2_def split: list.splits if_splits)

lemma alt1_D: "(v, r) \<in> set (alt1 p s) \<Longrightarrow> \<exists>a. s = a # r \<and> p a \<and> v = num_of [a]"
  by (auto simp: alt1_def split: list.splits if_splits)

lemma blank_digit_D:
  "(v, r) \<in> set (blank_digit s) \<Longrightarrow> \<exists>b. s = CHR '' '' # b # r \<and> v = digit_val b"
  by (auto simp: blank_digit_def split: list.splits if_splits)

lemma candidates_rest: "(v, r) \<in> set (candidates d s) \<Longrightarrow> set r \<subseteq> set s"
proof (cases d)
  case (Lit c)
  assume "(v, r) \<in> set (candidates d s)"
  then show ?thesis using Lit by (auto simp: candidates_def split: list.splits if_splits)
next
  case DirY
  assume "(v, r) \<in> set (candidates d s)"
  then show ?thesis using DirY set_drop_subset [of 4 s]
    by (auto simp: candidates_def split: if_splits)
next
  case Dirf
  assume "(v, r) \<in> set (candidates d s)"
  then obtain k where "r = drop k s" using Dirf by (auto simp: candidates_def)
  then show ?thesis using set_drop_subset [of k s] by simp
next
  case Spaces
  assume "(v, r) \<in> set (candidates d s)"
  then obtain k where "r = drop k s" using Spaces by (auto simp: candidates_def)
  then show ?thesis using set_drop_subset [of k s] by simp
qed (auto simp: candidates_def dest!: alt2_D alt1_D blank_digit_D)

lemma candidates_Lit:
  "(v, r) \<in> set (candidates (Lit c) s) \<Longrightarrow> \<exists>a. s = a # r \<and> lower_char a = lower_char c"
  by (auto simp: candidates_def split: list.splits if_splits)

lemma literal_needed:
  "match_dirs ds s dt = Some res \<Longrightarrow> Lit c \<in> set ds \<Longrightarrow>
   \<exists>a\<in>set s. lower_char a = lower_char c"
proof (induction ds arbitrary: s dt)
  case Nil
  then show ?case by simp
next
  case (Cons d ds)
  obtain v r where cand: "(v, r) \<in> set (candidates d s)"
    and rest: "match_dirs ds r (set_field d v dt) = Some res"
    using match_dirs_Cons_Some [OF Cons.prems(1)] by blast
  show ?case
  proof (cases "d = Lit c")
    case True
    then obtain a where "s = a # r" and "lower_char a = lower_char c"
      using cand candidates_Lit by blast
    then show ?thesis by auto
  next
    case False
    then have "Lit c \<in> set ds" using Cons.prems(2) by simp
    then have "\<exists>a\<in>set r. lower_char a = lower_char c" using Cons.IH [OF rest] by simp
    then show ?thesis using candidates_rest [OF cand] by blast
  qed
qed

lemma strptime_needs_literal:
  "compile_format fmt = Some ds \<Longrightarrow> Lit c \<in> set ds \<Longrightarrow>
   \<forall>a\<in>set s. lower_char a \<noteq> lower_char c \<Longrightarrow> strptime s fmt = None"
proof -
  assume c: "compile_format fmt = Some ds" and l: "Lit c \<in> set ds"
    and no: "\<forall>a\<in>set s. lower_char a \<noteq> lower_char c"
  have "match_dirs ds s epoch_default = None"
  proof (cases "match_dirs ds s epoch_default")
    case None
    then show ?thesis .
  next
    case (Some res)
    then have "\<exists>a\<in>set s. lower_char a = lower_char c" using l by (rule literal_needed)
    then show ?thesis using no by blast
  qed
  then show ?thesis using c by (simp add: strptime_def)
qed

lemma compile_formats:
  "compile_format ''%Y-%m-%d'' = Some [DirY, Lit CHR ''-'', Dirm, Lit CHR ''-'', Dird]"
  "compile_format ''%m/%d/%Y'' = Some [Dirm, Lit CHR ''/'', Dird, Lit CHR ''/'', DirY]"
  "compile_format ''%d/%m/%Y'' = Some [Dird, Lit CHR ''/'', Dirm, Lit CHR ''/'', DirY]"
  "compile_format ''%Y/%m/%d'' = Some [DirY, Lit CHR ''/'', Dirm, Lit CHR ''/'', Dird]"
  "compile_format ''%Y-%m-%d %H:%M:%S'' =
     Some [DirY, Lit CHR ''-'', Dirm, Lit CHR ''-'', Dird, Spaces,
           DirH, Lit CHR '':'', DirM, Lit CHR '':'', DirS]"
  "compile_format ''%m/%d/%Y %H:%M:%S'' =
     Some [Dirm, Lit CHR ''/'', Dird, Lit CHR ''/'', DirY, Spaces,
           DirH, Lit CHR '':'', DirM, Lit CHR '':'', DirS]"
  "compile_format ''%Y-%m-%dT%H:%M:%S'' =
     Some [DirY, Lit CHR ''-'', Dirm, Lit CHR ''-'', Dird, Lit CHR ''T'',
           DirH, Lit CHR '':'', DirM, Lit CHR '':'', DirS]"
  "compile_format ''%Y-%m-%dT%H:%M:%S.%f'' =
     Some [DirY, Lit CHR ''-'', Dirm, Lit CHR ''-'', Dird, Lit CHR ''T'',
           DirH, Lit CHR '':'', DirM, Lit CHR '':'', DirS, Lit CHR ''.'', Dirf]"
  by (simp_all add: directive_of_def is_space_def)

lemma lower_char_digit: "is_digit c \<Longrightarrow> lower_char c = c"
proof -
  have "\<forall>c\<in>set ''0123456789''. lower_char c = c" by (simp add: lower_char_def upper_chars_def lower_chars_def)
  then show "is_digit c \<Longrightarrow> lower_char c = c" by (simp only: is_digit_def)
qed

lemma digit_no_separator:
  "is_digit c \<Longrightarrow> c \<noteq> CHR ''/'' \<and> c \<noteq> CHR '':'' \<and> c \<noteq> CHR ''-'' \<and> c \<noteq> CHR '' ''"
proof -
  have "\<forall>c\<in>set ''0123456789''.
          c \<noteq> CHR ''/'' \<and> c \<noteq> CHR '':'' \<and> c \<noteq> CHR ''-'' \<and> c \<noteq> CHR '' ''"
    by simp
  moreover assume "is_digit c"
  then have "c \<in> set ''0123456789''" by (simp only: is_digit_def)
  ultimately show ?thesis by (rule bspec)
qed

lemma lower_char_separators:
  "lower_char CHR ''/'' = CHR ''/''" "lower_char CHR '':'' = CHR '':''"
  "lower_char CHR ''-'' = CHR ''-''"
  by (simp_all add: lower_char_def upper_chars_def lower_chars_def)

lemma digit_not_separator:
  "is_digit c \<Longrightarrow>
   lower_char c \<noteq> lower_char CHR ''/'' \<and> lower_char c \<noteq> lower_char CHR '':'' \<and>
   lower_char c \<noteq> lower_char CHR ''-'' \<and> c \<noteq> CHR '' ''"
  using digit_no_separator [of c] by (simp add: lower_char_digit lower_char_separators)

lemma hyphen_not_separator:
  "lower_char CHR ''-'' \<noteq> lower_char CHR ''/'' \<and> lower_char CHR ''-'' \<noteq> lower_char CHR '':''"
  by (simp add: lower_char_separators)

lemma length_10: "length s = 10 \<Longrightarrow> \<exists>a b c d e f g h i j. s = [a, b, c, d, e, f, g, h, i, j]"
  by (auto simp: numeral_eq_Suc length_Suc_conv)

lemma iso_explicit:
  "iso_date_form [a, b, c, d, e, f, g, h, i, j] =
     (is_digit a \<and> is_digit b \<and> is_digit c \<and> is_digit d \<and> e = CHR ''-'' \<and>
      is_digit f \<and> is_digit g \<and> h = CHR ''-'' \<and> is_digit i \<and> is_digit j)"
  by (simp add: iso_date_form_def)

lemma iso_date_formD:
  assumes "iso_date_form s"
  shows "\<exists>y1 y2 y3 y4 m1 m2 d1 d2.
     s = [y1, y2, y3, y4, CHR ''-'', m1, m2, CHR ''-'', d1, d2] \<and>
     is_digit y1 \<and> is_digit y2 \<and> is_digit y3 \<and> is_digit y4 \<and>
     is_digit m1 \<and> is_digit m2 \<and> is_digit d1 \<and> is_digit d2"
proof -
  have "length s = 10" using assms by (simp add: iso_date_form_def)
  then have "\<exists>a b c d e f g h i j. s = [a, b, c, d, e, f, g, h, i, j]" by (rule length_10)
  then obtain a b c d e f g h i j where s: "s = [a, b, c, d, e, f, g, h, i, j]"
    by (elim exE) blast
  have "is_digit a \<and> is_digit b \<and> is_digit c \<and> is_digit d \<and> e = CHR ''-'' \<and>
      is_digit f \<and> is_digit g \<and> h = CHR ''-'' \<and> is_digit i \<and> is_digit j"
    using assms unfolding s iso_explicit .
  then show ?thesis unfolding s by blast
qed

lemma iso_other_formats:
  assumes "iso_date_form s" and "fmt \<in> set (tl date_formats)"
  shows "strptime s fmt = None"
proof -
  obtain y1 y2 y3 y4 m1 m2 d1 d2 where
    s: "s = [y1, y2, y3, y4, CHR ''-'', m1, m2, CHR ''-'', d1, d2]" and
    dg: "is_digit y1" "is_digit y2" "is_digit y3" "is_digit y4"
        "is_digit m1" "is_digit m2" "is_digit d1" "is_digit d2"
    using iso_date_formD [OF assms(1)] by blast
  have slash: "\<forall>a\<in>set s. lower_char a \<noteq> lower_char CHR ''/''"
    using dg digit_not_separator hyphen_not_separator by (simp add: s)
  have colon: "\<forall>a\<in>set s. lower_char a \<noteq> lower_char CHR '':''"
    using dg digit_not_separator hyphen_not_separator by (simp add: s)
  from assms(2) have "fmt = ''%m/%d/%Y'' \<or> fmt = ''%d/%m/%Y'' \<or> fmt = ''%Y/%m/%d''
    \<or> fmt = ''%Y-%m-%d %H:%M:%S'' \<or> fmt = ''%m/%d/%Y %H:%M:%S''
    \<or> fmt = ''%Y-%m-%dT%H:%M:%S'' \<or> fmt = ''%Y-%m-%dT%H:%M:%S.%f''"
    by (simp add: date_formats_def)
  then show ?thesis
  proof (elim disjE)
    assume f: "fmt = ''%m/%d/%Y''"
    show ?thesis unfolding f by (rule strptime_needs_literal [OF compile_formats(2) _ slash]) simp
  next
    assume f: "fmt = ''%d/%m/%Y''"
    show ?thesis unfolding f by (rule strptime_needs_literal [OF compile_formats(3) _ slash]) simp
  next
    assume f: "fmt = ''%Y/%m/%d''"
    show ?thesis unfolding f by (rule strptime_needs_literal [OF compile_formats(4) _ slash]) simp
  next
    assume f: "fmt = ''%Y-%m-%d %H:%M:%S''"
    show ?thesis unfolding f by (rule strptime_needs_literal [OF compile_formats(5) _ colon]) simp
  next
    assume f: "fmt = ''%m/%d/%Y %H:%M:%S''"
    show ?thesis unfolding f by (rule strptime_needs_literal [OF compile_formats(6) _ colon]) simp
  next
    assume f: "fmt = ''%Y-%m-%dT%H:%M:%S''"
    show ?thesis unfolding f by (rule strptime_needs_literal [OF compile_formats(7) _ colon]) simp
  next
    assume f: "fmt = ''%Y-%m-%dT%H:%M:%S.%f''"
    show ?thesis unfolding f by (rule strptime_needs_literal [OF compile_formats(8) _ colon]) simp
  qed
qed

lemma candidates_Y:
  "is_digit y1 \<Longrightarrow> is_digit y2 \<Longrightarrow> is_digit y3 \<Longrightarrow> is_digit y4 \<Longrightarrow>
   candidates DirY (y1 # y2 # y3 # y4 # r) = [(num_of [y1, y2, y3, y4], r)]"
  by (simp add: candidates_def)

lemma candidates_hyphen: "candidates (Lit CHR ''-'') (CHR ''-'' # r) = [(0, r)]"
  by (simp add: candidates_def)

lemma candidates_hyphen_digit: "is_digit c \<Longrightarrow> candidates (Lit CHR ''-'') (c # r) = []"
  using digit_not_separator [of c] by (simp add: candidates_def)

lemma candidates_m_D:
  "(v, r) \<in> set (candidates Dirm (a # b # rest)) \<Longrightarrow>
   (r = rest \<and> v = num_of [a, b]) \<or> (r = b # rest \<and> v = num_of [a])"
proof -
  assume "(v, r) \<in> set (candidates Dirm (a # b # rest))"
  then consider "(v, r) \<in> set (alt2 ((=) CHR ''1'') (between 0 2) (a # b # rest))"
    | "(v, r) \<in> set (alt2 ((=) CHR ''0'') (between 1 9) (a # b # rest))"
    | "(v, r) \<in> set (alt1 (between 1 9) (a # b # rest))"
    by (auto simp: candidates_def)
  then show ?thesis
  proof cases
    case 1
    then show ?thesis using alt2_D [OF 1] by simp
  next
    case 2
    then show ?thesis using alt2_D [OF 2] by simp
  next
    case 3
    then show ?thesis using alt1_D [OF 3] by simp
  qed
qed

lemma candidates_d_D:
  "(v, r) \<in> set (candidates Dird [a, b]) \<Longrightarrow>
   (r = [] \<and> v = num_of [a, b]) \<or> (r = [b] \<and> v = num_of [a]) \<or> a = CHR '' ''"
proof -
  assume "(v, r) \<in> set (candidates Dird [a, b])"
  then consider "(v, r) \<in> set (alt2 ((=) CHR ''3'') (between 0 1) [a, b])"
    | "(v, r) \<in> set (alt2 (between 1 2) is_digit [a, b])"
    | "(v, r) \<in> set (alt2 ((=) CHR ''0'') (between 1 9) [a, b])"
    | "(v, r) \<in> set (alt1 (between 1 9) [a, b])"
    | "(v, r) \<in> set (blank_digit [a, b])"
    by (auto simp: candidates_def)
  then show ?thesis
  proof cases
    case 1
    then show ?thesis using alt2_D [OF 1] by simp
  next
    case 2
    then show ?thesis using alt2_D [OF 2] by simp
  next
    case 3
    then show ?thesis using alt2_D [OF 3] by simp
  next
    case 4
    then show ?thesis using alt1_D [OF 4] by simp
  next
    case 5
    then show ?thesis using blank_digit_D [OF 5] by simp
  qed
qed

lemma zero_pad_4:
  "is_digit a \<Longrightarrow> is_digit b \<Longrightarrow> is_digit c \<Longrightarrow> is_digit d \<Longrightarrow>
   zero_pad 4 (num_of [a, b, c, d]) = [a, b, c, d]"
  using zero_pad_num_of [of "[a, b, c, d]"] by (simp add: eval_nat_numeral)

lemma year_digits:
  assumes "is_digit a" and "is_digit b" and "is_digit c" and "is_digit d" and "a \<noteq> CHR ''0''"
  shows "digits_of_nat (num_of [a, b, c, d]) = [a, b, c, d]"
proof -
  let ?ds = "digits_of_nat (num_of [a, b, c, d])"
  have pad: "replicate (4 - length ?ds) CHR ''0'' @ ?ds = [a, b, c, d]"
    using zero_pad_4 [OF assms(1-4)] by (simp add: zero_pad_def)
  have "4 - length ?ds = 0"
  proof (cases "4 - length ?ds")
    case 0
    then show ?thesis .
  next
    case (Suc n)
    have "hd (replicate (Suc n) CHR ''0'' @ ?ds) = CHR ''0''" by simp
    moreover have "replicate (Suc n) CHR ''0'' @ ?ds = [a, b, c, d]"
      using pad unfolding Suc .
    ultimately have "hd [a, b, c, d] = CHR ''0''" by (simp only:)
    then show ?thesis using assms(5) by simp
  qed
  then show ?thesis using pad by simp
qed

lemma zero_pad_2: "is_digit a \<Longrightarrow> is_digit b \<Longrightarrow> zero_pad 2 (num_of [a, b]) = [a, b]"
  using zero_pad_num_of [of "[a, b]"] by (simp add: eval_nat_numeral)

lemma iso_first_format:
  assumes dg: "is_digit y1" "is_digit y2" "is_digit y3" "is_digit y4"
        "is_digit m1" "is_digit m2" "is_digit d1" "is_digit d2"
    and y: "y1 \<noteq> CHR ''0''"
    and p: "strptime [y1, y2, y3, y4, CHR ''-'', m1, m2, CHR ''-'', d1, d2] ''%Y-%m-%d'' = Some dt"
  shows "strftime_ymd dt = [y1, y2, y3, y4, CHR ''-'', m1, m2, CHR ''-'', d1, d2]"
proof -
  let ?s = "[y1, y2, y3, y4, CHR ''-'', m1, m2, CHR ''-'', d1, d2]"
  have m: "match_dirs [DirY, Lit CHR ''-'', Dirm, Lit CHR ''-'', Dird] ?s epoch_default
             = Some (dt, [])"
    using p unfolding strptime_def compile_formats(1)
    by (auto split: option.splits if_splits)
  let ?dt1 = "set_field (Lit CHR ''-'') 0
               (set_field DirY (num_of [y1, y2, y3, y4]) epoch_default)"
  have m1: "match_dirs [Dirm, Lit CHR ''-'', Dird] [m1, m2, CHR ''-'', d1, d2] ?dt1
             = Some (dt, [])"
    using m dg by (simp add: candidates_Y candidates_hyphen split: option.splits)
  obtain v r where c: "(v, r) \<in> set (candidates Dirm [m1, m2, CHR ''-'', d1, d2])"
    and m2: "match_dirs [Lit CHR ''-'', Dird] r (set_field Dirm v ?dt1) = Some (dt, [])"
    using match_dirs_Cons_Some [OF m1] by blast
  have "r = [CHR ''-'', d1, d2] \<and> v = num_of [m1, m2]"
  proof (rule disjE [OF candidates_m_D [OF c]])
    assume "r = m2 # [CHR ''-'', d1, d2] \<and> v = num_of [m1]"
    then have "match_dirs [Lit CHR ''-'', Dird] r (set_field Dirm v ?dt1) = None"
      using dg by (simp add: candidates_hyphen_digit)
    then show ?thesis using m2 by simp
  qed
  then have r: "r = [CHR ''-'', d1, d2]" and v: "v = num_of [m1, m2]" by simp_all
  let ?dt2 = "set_field (Lit CHR ''-'') 0 (set_field Dirm (num_of [m1, m2]) ?dt1)"
  have m3: "match_dirs [Dird] [d1, d2] ?dt2 = Some (dt, [])"
    using m2 unfolding r v by (simp add: candidates_hyphen split: option.splits)
  obtain w q where c': "(w, q) \<in> set (candidates Dird [d1, d2])"
    and m4: "match_dirs [] q (set_field Dird w ?dt2) = Some (dt, [])"
    using match_dirs_Cons_Some [OF m3] by blast
  have q: "q = []" and dt: "dt = set_field Dird w ?dt2" using m4 by simp_all
  have "d1 \<noteq> CHR '' ''" using digit_no_separator [OF dg(7)] by simp
  then have w: "w = num_of [d1, d2]" using candidates_d_D [OF c'] q by auto
  have "year dt = num_of [y1, y2, y3, y4]" "month dt = num_of [m1, m2]" "day dt = num_of [d1, d2]"
    unfolding dt w by (simp_all add: set_field_def epoch_default_def)
  then show ?thesis using dg y by (simp add: strftime_ymd_def year_digits zero_pad_2)
qed

lemma normalize_date_iso:
  "iso_date_form s \<Longrightarrow> take 1 s \<noteq> ''0'' \<Longrightarrow> normalize_date s = s"
proof -
  assume iso: "iso_date_form s" and year: "take 1 s \<noteq> ''0''"
  have "\<forall>fmt\<in>set (tl date_formats). strptime s fmt = None"
    using iso_other_formats [OF iso] by blast
  then have others: "try_formats (tl date_formats) s = None"
    by (simp add: date_formats_def)
  obtain y1 y2 y3 y4 m1 m2 d1 d2 where
    s: "s = [y1, y2, y3, y4, CHR ''-'', m1, m2, CHR ''-'', d1, d2]" and
    dg: "is_digit y1" "is_digit y2" "is_digit y3" "is_digit y4"
        "is_digit m1" "is_digit m2" "is_digit d1" "is_digit d2"
    using iso_date_formD [OF iso] by blast
  have fmts: "date_formats = ''%Y-%m-%d'' # tl date_formats" by (simp add: date_formats_def)
  show ?thesis
  proof (cases "strptime s ''%Y-%m-%d''")
    case None
    then have "try_formats date_formats s = None"
      using others by (subst fmts) simp
    then show ?thesis by (simp add: normalize_date_def)
  next
    case (Some dt)
    moreover have "y1 \<noteq> CHR ''0''" using year s by simp
    ultimately have "strftime_ymd dt = s" using iso_first_format [OF dg] s by simp
    moreover have "try_formats date_formats s = Some (strftime_ymd dt)"
      using Some by (subst fmts) simp
    ultimately show ?thesis by (simp add: normalize_date_def)
  qed
qed

lemma try_formats_first:
  "\<forall>g\<in>set pre. strptime s g = None \<Longrightarrow> strptime s fmt = Some dt \<Longrightarrow>
   try_formats (pre @ fmt # post) s = Some (strftime_ymd dt)"
  by (induction pre) auto

lemma try_formats_none: "\<forall>g\<in>set fmts. strptime s g = None \<Longrightarrow> try_formats fmts s = None"
  by (induction fmts) auto

lemma normalize_value_date:
  "normalize_value repr ''shipping_date'' (JStr raw) = normalize_date (strip raw)"
  by (simp add: normalize_value_def py_str_def)

lemma date_in_table:
  "(''shipping_date'',
      [''shipping_date'', ''ship_date'', ''pickup_date'', ''dispatch_date'', ''send_date'',
       ''departure_date'', ''collection_date'', ''scheduled_date'']) \<in> set field_mappings"
  by (simp add: field_mappings_def)

lemma us_date_first: "strptime ''01/25/2024'' ''%Y-%m-%d'' = None"
  by (simp add: date_eval)

lemma us_date_second:
  "strptime ''01/25/2024'' ''%m/%d/%Y'' =
     Some \<lparr>year = 2024, month = 1, day = 25, hour = 0, minute = 0, second = 0, microsecond = 0\<rparr>"
  by (simp add: date_eval)

lemma us_date_out:
  "strftime_ymd \<lparr>year = 2024, month = 1, day = 25, hour = 0, minute = 0, second = 0,
                  microsecond = 0\<rparr> = ''2024-01-25''"
  by (simp add: strftime_ymd_def zero_pad_def digits_of_nat.simps digit_char_def)

lemma us_date_normalized: "normalize_date ''01/25/2024'' = ''2024-01-25''"
  by (simp add: normalize_date_def date_formats_def us_date_first us_date_second
      strftime_ymd_def zero_pad_def digits_of_nat.simps digit_char_def)

lemma date_document_example:
  "lookup (parse_json_data repr parsed_at (JObj [(''dispatch_date'', JStr ''01/25/2024'')]))
     ''shipping_date'' = Some (JStr ''2024-01-25'')"
proof -
  have "find_value_by_keys (flatten_json (JObj [(''dispatch_date'', JStr ''01/25/2024'')]) [] ''.'')
      [''shipping_date'', ''ship_date'', ''pickup_date'', ''dispatch_date'', ''send_date'',
       ''departure_date'', ''collection_date'', ''scheduled_date''] = JStr ''01/25/2024''"
    by (simp add: dict_of_def find_value_by_keys_def has_key_def lookup_def)
  moreover have "strip ''01/25/2024'' = ''01/25/2024''" by (simp add: strip_def is_space_def)
  ultimately show ?thesis
    by (simp add: parse_lookup [OF date_in_table] normalize_value_date us_date_normalized)
qed

text \<open>The loop returns at the first format that parses, and returns the string when none
  does.\<close>

lemma normalize_date_first_hit:
  "(date_formats = pre @ fmt # post \<and> (\<forall>g\<in>set pre. strptime date_str g = None)
        \<and> strptime date_str fmt = Some dt
      \<longrightarrow> normalize_date date_str = strftime_ymd dt)
   \<and> ((\<forall>g\<in>set date_formats. strptime date_str g = None) \<longrightarrow> normalize_date date_str = date_str)"
proof (intro conjI impI; (elim conjE)?)
  assume f: "date_formats = pre @ fmt # post"
    and miss: "\<forall>g\<in>set pre. strptime date_str g = None"
    and hit: "strptime date_str fmt = Some dt"
  from miss hit have "try_formats (pre @ fmt # post) date_str = Some (strftime_ymd dt)"
    by (rule try_formats_first)
  then show "normalize_date date_str = strftime_ymd dt"
    unfolding normalize_date_def f by simp
next
  assume "\<forall>g\<in>set date_formats. strptime date_str g = None"
  then show "normalize_date date_str = date_str"
    by (simp add: normalize_date_def try_formats_none)
qed

lemma early_year_parsed:
  "strptime ''0999-01-01'' ''%Y-%m-%d'' =
     Some \<lparr>year = 999, month = 1, day = 1, hour = 0, minute = 0, second = 0, microsecond = 0\<rparr>"
  by (simp add: date_eval)

lemma early_year_normalized: "normalize_date ''0999-01-01'' = ''999-01-01''"
  by (simp add: normalize_date_def date_formats_def early_year_parsed
      strftime_ymd_def zero_pad_def digits_of_nat.simps digit_char_def)

text \<open>
  Claim C4.  The function is documented to normalize a date to the form \<^verbatim>\<open>YYYY-MM-DD\<close>,
  and for the document \<^verbatim>\<open>{"dispatch_date": "01/25/2024"}\<close> the shipping date is
  \<^verbatim>\<open>2024-01-25\<close>.  But the year is written without leading zeros: the first format parses
  \<^verbatim>\<open>0999-01-01\<close> as a date of the year 999, and what comes back is \<^verbatim>\<open>999-01-01\<close>, which is
  not of that form.
\<close>

theorem normalize_date_year_not_padded:
  "strptime ''0999-01-01'' ''%Y-%m-%d'' =
     Some \<lparr>year = 999, month = 1, day = 1, hour = 0, minute = 0, second = 0, microsecond = 0\<rparr>
   \<and> normalize_date ''0999-01-01'' = ''999-01-01''
   \<and> normalize_value repr ''shipping_date'' (JStr ''0999-01-01'') = ''999-01-01''
   \<and> \<not> iso_date_form ''999-01-01''
   \<and> lookup (parse_json_data repr parsed_at (JObj [(''dispatch_date'', JStr ''01/25/2024'')]))
        ''shipping_date'' = Some (JStr ''2024-01-25'')"
proof (intro conjI)
  show "strptime ''0999-01-01'' ''%Y-%m-%d'' =
     Some \<lparr>year = 999, month = 1, day = 1, hour = 0, minute = 0, second = 0, microsecond = 0\<rparr>"
    by (rule early_year_parsed)
  show "normalize_date ''0999-01-01'' = ''999-01-01''" by (rule early_year_normalized)
  have "strip ''0999-01-01'' = ''0999-01-01''" by (simp add: strip_def is_space_def)
  then show "normalize_value repr ''shipping_date'' (JStr ''0999-01-01'') = ''999-01-01''"
    by (simp add: normalize_value_date early_year_normalized)
  show "\<not> iso_date_form ''999-01-01''" by (simp add: iso_date_form_def)
  show "lookup (parse_json_data repr parsed_at (JObj [(''dispatch_date'', JStr ''01/25/2024'')]))
        ''shipping_date'' = Some (JStr ''2024-01-25'')"
    by (rule date_document_example)
qed

text \<open>A day written with a blank is read as the library reads it.\<close>

lemma blank_day_parsed:
  "strptime ''2024-01- 5'' ''%Y-%m-%d'' =
     Some \<lparr>year = 2024, month = 1, day = 5, hour = 0, minute = 0, second = 0, microsecond = 0\<rparr>"
  by (simp add: date_eval)

lemma blank_day_normalized: "normalize_date ''2024-01- 5'' = ''2024-01-05''"
  by (simp add: normalize_date_def date_formats_def blank_day_parsed
      strftime_ymd_def zero_pad_def digits_of_nat.simps digit_char_def)

subsection \<open>Idempotence on canonical records\<close>

lemma dropWhile_rev_last: "xs \<noteq> [] \<Longrightarrow> \<not> P (last xs) \<Longrightarrow> dropWhile P (rev xs) = rev xs"
  by (cases xs rule: rev_cases) auto

lemma strip_trimmed: "trimmed s \<Longrightarrow> strip s = s"
proof (cases s)
  case Nil
  then show ?thesis by (simp add: strip_def)
next
  case (Cons c r)
  assume "trimmed s"
  then have h: "\<not> is_space c" and l: "\<not> is_space (last s)" using Cons by (simp_all add: trimmed_def)
  have "dropWhile is_space s = s" using h Cons by simp
  moreover have "dropWhile is_space (rev s) = rev s"
    using l Cons by (intro dropWhile_rev_last) simp_all
  ultimately show ?thesis by (simp add: strip_def)
qed

lemma weight_search_numeric_token: "numeric_token s \<Longrightarrow> weight_search s = Some s"
proof -
  assume t: "numeric_token s"
  let ?ds = "takeWhile is_digit s" and ?r = "dropWhile is_digit s"
  have s: "s = ?ds @ ?r" by simp
  have ds: "?ds \<noteq> []" "\<forall>c\<in>set ?ds. is_digit c"
    using t by (auto simp: numeric_token_def dest: set_takeWhileD)
  show ?thesis
  proof (cases ?r)
    case Nil
    have "weight_search ([] @ ?ds @ []) = Some ?ds"
      using ds by (intro weight_search_token) (simp_all add: begins_with_def)
    then show ?thesis using s Nil by simp
  next
    case (Cons p fs)
    then have p: "p = CHR ''.''" and fs: "\<forall>c\<in>set fs. is_digit c"
      using t by (simp_all add: numeric_token_def list_all_iff)
    have "weight_search ([] @ ?ds @ CHR ''.'' # fs @ []) = Some (?ds @ CHR ''.'' # fs)"
      using ds fs by (intro weight_search_token_point) (simp_all add: begins_with_def)
    moreover have "s = ?ds @ CHR ''.'' # fs" using s Cons p by simp
    ultimately show ?thesis by simp
  qed
qed

lemma replace_char_absent: "old \<notin> set s \<Longrightarrow> replace_char old new s = s"
  by (induction s) (auto simp: replace_char_def)

lemma split_on_nonempty: "split_on c s \<noteq> []"
  by (induction s) (auto split: list.splits)

lemma join_Cons_char: "join sep ((x # l) # ls) = x # join sep (l # ls)"
  by (cases ls) simp_all

lemma join_empty_line: "ls \<noteq> [] \<Longrightarrow> join [c] ([] # ls) = c # join [c] ls"
  by (cases ls) simp_all

lemma join_split_on: "join [c] (split_on c s) = s"
proof (induction s)
  case Nil
  then show ?case by simp
next
  case (Cons x s)
  show ?case
  proof (cases "x = c")
    case True
    then show ?thesis using Cons split_on_nonempty [of c s] by (simp add: join_empty_line)
  next
    case False
    obtain l ls where ls: "split_on c s = l # ls"
      using split_on_nonempty [of c s] by (cases "split_on c s") auto
    then show ?thesis using False Cons by (simp add: join_Cons_char)
  qed
qed

lemma normalize_address_canonical:
  assumes "address_form s"
  shows "normalize_address s = s"
proof -
  have "replace_char CHR '';'' CHR 0x0A (replace_char CHR ''|'' CHR 0x0A s) = s"
    using assms by (simp add: address_form_def replace_char_absent)
  then have n: "normalize_address s =
      join [CHR 0x0A] (map strip (filter (\<lambda>line. strip line \<noteq> []) (split_on CHR 0x0A s)))"
    by (simp add: normalize_address_def)
  show ?thesis
  proof (cases "s = []")
    case True
    then show ?thesis using n by (simp add: strip_def)
  next
    case False
    then have lines: "\<forall>line\<in>set (split_on CHR 0x0A s). line \<noteq> [] \<and> trimmed line"
      using assms by (simp add: address_form_def list_all_iff)
    then have keep: "\<forall>line\<in>set (split_on CHR 0x0A s). strip line = line \<and> strip line \<noteq> []"
      by (simp add: strip_trimmed)
    then have "\<forall>line\<in>set (split_on CHR 0x0A s). strip line \<noteq> []" by blast
    then have "filter (\<lambda>line. strip line \<noteq> []) (split_on CHR 0x0A s) = split_on CHR 0x0A s"
      by (simp only: filter_id_conv)
    moreover have "map strip (split_on CHR 0x0A s) = split_on CHR 0x0A s"
      using keep by (simp add: map_idI)
    ultimately show ?thesis using n by (simp add: join_split_on)
  qed
qed

lemma normalize_canonical:
  assumes "canonical_value f s"
  shows "normalize_value repr f (JStr s) = s"
proof -
  have st: "strip s = s" using assms by (simp add: canonical_value_def strip_trimmed)
  consider "f = ''package_weight''" | "f = ''shipping_date''"
    | "f \<in> set [''shipper_address'', ''recipient_address'']"
    | "f \<noteq> ''package_weight''" "f \<noteq> ''shipping_date''"
      "f \<notin> set [''shipper_address'', ''recipient_address'']"
    by auto
  then show ?thesis
  proof cases
    case 1
    then have "numeric_token s" using assms by (simp add: canonical_value_def)
    then show ?thesis using 1 st
      by (simp add: normalize_value_def py_str_def weight_search_numeric_token)
  next
    case 2
    then have "iso_date_form s" and "take 1 s \<noteq> ''0''"
      using assms by (simp_all add: canonical_value_def)
    then have "normalize_date s = s" by (rule normalize_date_iso)
    then show ?thesis using 2 st
      by (simp add: normalize_value_def py_str_def)
  next
    case 3
    then have "address_form s" using assms by (auto simp: canonical_value_def)
    then show ?thesis using 3 st
      by (auto simp: normalize_value_def py_str_def normalize_address_canonical)
  next
    case 4
    then show ?thesis using st by (simp add: normalize_value_def py_str_def)
  qed
qed

lemma flatten_items_flat:
  "\<forall>p\<in>set doc. \<exists>s. snd p = JStr s \<Longrightarrow> flatten_items doc [] separator = doc"
proof (induction doc)
  case Nil
  then show ?case by simp
next
  case (Cons p doc)
  obtain k s where p: "p = (k, JStr s)" using Cons.prems by (cases p) auto
  then show ?case using Cons by simp
qed

lemma lookup_dict_of_distinct:
  "distinct (map fst doc) \<Longrightarrow> (k, v) \<in> set doc \<Longrightarrow> lookup (dict_of doc) k = Some v"
proof -
  assume "distinct (map fst doc)" and "(k, v) \<in> set doc"
  then have "map_of (rev doc) k = Some v"
    by (intro map_of_is_SomeI) (simp_all add: rev_map [symmetric])
  moreover have "lookup [] k = None" by (simp add: lookup_def)
  ultimately show ?thesis by (simp add: dict_of_def lookup_dict_extend)
qed

lemma first_alias: "(f, ks) \<in> set field_mappings \<Longrightarrow> \<exists>ks'. ks = f # ks'"
  by (auto simp: field_mappings_def)

lemma name_in_table:
  "(''shipper_name'',
      [''shipper_name'', ''shipper'', ''sender_name'', ''sender'', ''from_name'', ''from'',
       ''origin_name'', ''origin_company'', ''shipping_company'', ''company_name''])
     \<in> set field_mappings"
  by (simp add: field_mappings_def)

lemma lone_address_resolution:
  "find_value_by_keys [(''shipper_address'', JStr ''1 Main St'')]
      [''shipper_name'', ''shipper'', ''sender_name'', ''sender'', ''from_name'', ''from'',
       ''origin_name'', ''origin_company'', ''shipping_company'', ''company_name'']
     = JStr ''1 Main St''"
proof -
  let ?data = "[(''shipper_address'', JStr ''1 Main St'')]"
  have low: "lower ''shipper_address'' = ''shipper_address''"
    "lower ''shipper_name'' = ''shipper_name''" "lower ''shipper'' = ''shipper''"
    "lower ''sender_name'' = ''sender_name''" "lower ''sender'' = ''sender''"
    "lower ''from_name'' = ''from_name''" "lower ''from'' = ''from''"
    "lower ''origin_name'' = ''origin_name''" "lower ''origin_company'' = ''origin_company''"
    "lower ''shipping_company'' = ''shipping_company''"
    "lower ''company_name'' = ''company_name''"
    by (simp_all add: lower_def lower_char_def upper_chars_def lower_chars_def)
  have "\<forall>b\<in>set ([''shipper_name''] @ ''shipper'' #
           [''sender_name'', ''sender'', ''from_name'', ''from'', ''origin_name'',
            ''origin_company'', ''shipping_company'', ''company_name'']).
          \<forall>k\<in>fst ` set ?data. lower k \<noteq> lower b"
    by (simp add: low)
  moreover have "\<forall>b\<in>set [''shipper_name'']. \<forall>k\<in>fst ` set ?data. \<not> partial_match b k"
    by (simp add: partial_match_str_in low)
  moreover have "?data = [] @ (''shipper_address'', JStr ''1 Main St'') # []" by simp
  moreover have "\<forall>k\<in>fst ` set []. \<not> partial_match ''shipper'' k" by simp
  moreover have "partial_match ''shipper'' ''shipper_address''"
    by (simp add: partial_match_str_in low)
  ultimately have "find_value_by_keys ?data
      ([''shipper_name''] @ ''shipper'' #
           [''sender_name'', ''sender'', ''from_name'', ''from'', ''origin_name'',
            ''origin_company'', ''shipping_company'', ''company_name'']) = JStr ''1 Main St''"
    by (rule find_value_partial)
  then show ?thesis by simp
qed

text \<open>
  Claim C8, as the code has it.  Take a flat document with distinct keys, each a canonical
  field name, and each value a string in the canonical form of its field (a date with a year
  from 1000 on).  Every key of the document has in the parsed record the very string it has
  in the document; and when the document has all nine canonical fields, every canonical field
  of the record is the document's.  Nothing is said of a canonical field that the document
  lacks: resolution may still fill it from another key.
\<close>

theorem canonical_record_idempotent:
  "distinct (map fst doc) \<Longrightarrow>
   \<forall>p\<in>set doc. fst p \<in> fst ` set field_mappings
                 \<and> (\<exists>s. snd p = JStr s \<and> canonical_value (fst p) s) \<Longrightarrow>
   (\<forall>p\<in>set doc. lookup (parse_json_data repr parsed_at (JObj doc)) (fst p) = Some (snd p))
   \<and> (fst ` set doc = fst ` set field_mappings
        \<longrightarrow> (\<forall>f\<in>fst ` set field_mappings.
               lookup (parse_json_data repr parsed_at (JObj doc)) f = lookup doc f))"
proof -
  assume dist: "distinct (map fst doc)"
    and canon: "\<forall>p\<in>set doc. fst p \<in> fst ` set field_mappings
                 \<and> (\<exists>s. snd p = JStr s \<and> canonical_value (fst p) s)"
  have kept: "lookup (parse_json_data repr parsed_at (JObj doc)) (fst p) = Some (snd p)"
    if p: "p \<in> set doc" for p
  proof -
    obtain f v where fv: "p = (f, v)" by (cases p)
    obtain s where v: "v = JStr s" and cv: "canonical_value f s"
      using canon p fv by auto
    obtain ks where ks: "(f, ks) \<in> set field_mappings" using canon p fv by auto
    then obtain ks' where ks': "ks = f # ks'" using first_alias by blast
    have "\<forall>p\<in>set doc. \<exists>s. snd p = JStr s" using canon by blast
    then have fl: "flatten_json (JObj doc) [] ''.'' = dict_of doc"
      by (simp add: flatten_items_flat)
    have "lookup (dict_of doc) f = Some (JStr s)"
      using dist p fv v by (intro lookup_dict_of_distinct) simp_all
    then have "find_value_by_keys (dict_of doc) ([] @ f # ks') = JStr s"
      by (intro find_value_exact) simp_all
    then have "find_value_by_keys (flatten_json (JObj doc) [] ''.'') ks = JStr s"
      using fl ks' by simp
    then show ?thesis
      using fv v by (simp add: parse_lookup [OF ks] normalize_canonical [OF cv])
  qed
  have all: "lookup (parse_json_data repr parsed_at (JObj doc)) f = lookup doc f"
    if full: "fst ` set doc = fst ` set field_mappings" and f: "f \<in> fst ` set field_mappings" for f
  proof -
    from f full obtain p where p: "p \<in> set doc" and fp: "fst p = f" by (metis imageE)
    have "(f, snd p) \<in> set doc" using p fp by (cases p) auto
    then have "map_of doc f = Some (snd p)" using dist by (intro map_of_is_SomeI)
    then show ?thesis using kept [OF p] fp by (simp add: lookup_def)
  qed
  show ?thesis using kept all by blast
qed

theorem canonical_record_idempotent_witness:
  "canonical_value ''shipper_address'' (''123 Main St'' @ [CHR 0x0A] @ ''New York, NY 10001'')
   \<and> canonical_value ''package_weight'' ''25.3''
   \<and> canonical_value ''shipping_date'' ''2024-01-20''
   \<and> lookup (parse_json_data no_repr ''2024-01-15T10:00:00''
        (JObj [(''shipper_name'', JStr ''ABC Corp''),
               (''shipper_address'',
                  JStr (''123 Main St'' @ [CHR 0x0A] @ ''New York, NY 10001'')),
               (''package_weight'', JStr ''25.3''),
               (''shipping_date'', JStr ''2024-01-20'')])) ''shipper_address''
       = Some (JStr (''123 Main St'' @ [CHR 0x0A] @ ''New York, NY 10001''))
   \<and> lookup (parse_json_data no_repr ''2024-01-15T10:00:00''
        (JObj [(''shipper_name'', JStr ''ABC Corp''),
               (''shipper_address'',
                  JStr (''123 Main St'' @ [CHR 0x0A] @ ''New York, NY 10001'')),
               (''package_weight'', JStr ''25.3''),
               (''shipping_date'', JStr ''2024-01-20'')])) ''package_weight''
       = Some (JStr ''25.3'')
   \<and> lookup (parse_json_data no_repr ''2024-01-15T10:00:00''
        (JObj [(''shipper_name'', JStr ''ABC Corp''),
               (''shipper_address'',
                  JStr (''123 Main St'' @ [CHR 0x0A] @ ''New York, NY 10001'')),
               (''package_weight'', JStr ''25.3''),
               (''shipping_date'', JStr ''2024-01-20'')])) ''shipping_date''
       = Some (JStr ''2024-01-20'')"
proof -
  let ?addr = "''123 Main St'' @ [CHR 0x0A] @ ''New York, NY 10001''"
  let ?doc = "[(''shipper_name'', JStr ''ABC Corp''), (''shipper_address'', JStr ?addr),
               (''package_weight'', JStr ''25.3''), (''shipping_date'', JStr ''2024-01-20'')]"
  have c1: "canonical_value ''shipper_name'' ''ABC Corp''"
    by (simp add: canonical_value_def trimmed_def is_space_def)
  have c2: "canonical_value ''shipper_address'' ?addr"
    by (simp add: canonical_value_def trimmed_def is_space_def address_form_def)
  have c3: "canonical_value ''package_weight'' ''25.3''"
    by (simp add: canonical_value_def trimmed_def is_space_def numeric_token_def is_digit_def)
  have c4: "canonical_value ''shipping_date'' ''2024-01-20''"
    by (simp add: canonical_value_def trimmed_def is_space_def iso_date_form_def is_digit_def)
  have names: "''shipper_name'' \<in> fst ` set field_mappings"
    "''shipper_address'' \<in> fst ` set field_mappings"
    "''package_weight'' \<in> fst ` set field_mappings"
    "''shipping_date'' \<in> fst ` set field_mappings"
    by (simp_all add: field_mappings_def)
  have d: "distinct (map fst ?doc)" by simp
  have h: "\<forall>p\<in>set ?doc. fst p \<in> fst ` set field_mappings
                 \<and> (\<exists>s. snd p = JStr s \<and> canonical_value (fst p) s)"
    using c1 c2 c3 c4 names by simp
  have "\<forall>p\<in>set ?doc. lookup (parse_json_data no_repr ''2024-01-15T10:00:00'' (JObj ?doc)) (fst p)
          = Some (snd p)"
    using conjunct1 [OF canonical_record_idempotent [OF d h]] .
  then show ?thesis using c2 c3 c4 by simp
qed

lemma early_year_document:
  "lookup (parse_json_data repr parsed_at (JObj [(''shipping_date'', JStr ''0999-01-01'')]))
     ''shipping_date'' = Some (JStr ''999-01-01'')"
proof -
  let ?data = "[(''shipping_date'', JStr ''0999-01-01'')]"
  have fl: "flatten_json (JObj ?data) [] ''.'' = ?data" by (simp add: dict_of_def)
  have l: "lookup ?data ''shipping_date'' = Some (JStr ''0999-01-01'')" by (simp add: lookup_def)
  have "\<forall>b\<in>set ([]::string list). \<not> has_key ?data b" by simp
  then have fv: "find_value_by_keys ?data
       ([] @ ''shipping_date'' # [''ship_date'', ''pickup_date'', ''dispatch_date'', ''send_date'',
       ''departure_date'', ''collection_date'', ''scheduled_date'']) = JStr ''0999-01-01''"
    using l by (rule find_value_exact)
  have st: "strip ''0999-01-01'' = ''0999-01-01''" by (simp add: strip_def is_space_def)
  have nv: "normalize_value repr ''shipping_date'' (JStr ''0999-01-01'') = ''999-01-01''"
    by (simp add: normalize_value_date st early_year_normalized)
  show ?thesis
    unfolding parse_lookup [OF date_in_table] fl using fv nv by simp
qed

text \<open>The claim as the specification words it fails: a document whose only key is the
  canonical field \<^verbatim>\<open>shipper_address\<close>, with a canonical value, gets a record that has
  that value under \<^verbatim>\<open>shipper_name\<close> too, a field for which the document has no value.  The
  alias \<^verbatim>\<open>shipper\<close> is part of the key \<^verbatim>\<open>shipper_address\<close>.  And a date of the form
  \<^verbatim>\<open>YYYY-MM-DD\<close> with a year before 1000 does not come back as it went in.\<close>

theorem canonical_document_counterexample:
  "canonical_value ''shipper_address'' ''1 Main St''
   \<and> lookup [(''shipper_address'', JStr ''1 Main St'')] ''shipper_name'' = None
   \<and> lookup (parse_json_data no_repr ''2024-01-15T10:00:00''
        (JObj [(''shipper_address'', JStr ''1 Main St'')])) ''shipper_name''
       = Some (JStr ''1 Main St'')
   \<and> trimmed ''0999-01-01'' \<and> iso_date_form ''0999-01-01''
   \<and> lookup (parse_json_data no_repr ''2024-01-15T10:00:00''
        (JObj [(''shipping_date'', JStr ''0999-01-01'')])) ''shipping_date''
       = Some (JStr ''999-01-01'')"
proof (intro conjI)
  show "canonical_value ''shipper_address'' ''1 Main St''"
    by (simp add: canonical_value_def trimmed_def is_space_def address_form_def)
  show "lookup [(''shipper_address'', JStr ''1 Main St'')] ''shipper_name'' = None"
    by (simp add: lookup_def)
  have "normalize_value no_repr ''shipper_name'' (JStr ''1 Main St'') = ''1 Main St''"
    by (simp add: normalize_value_def py_str_def strip_def is_space_def)
  then show "lookup (parse_json_data no_repr ''2024-01-15T10:00:00''
        (JObj [(''shipper_address'', JStr ''1 Main St'')])) ''shipper_name''
       = Some (JStr ''1 Main St'')"
    by (simp add: parse_lookup [OF name_in_table] dict_of_def lone_address_resolution)
  show "trimmed ''0999-01-01''" by (simp add: trimmed_def is_space_def)
  show "iso_date_form ''0999-01-01''" by (simp add: iso_date_form_def is_digit_def)
  show "lookup (parse_json_data no_repr ''2024-01-15T10:00:00''
        (JObj [(''shipping_date'', JStr ''0999-01-01'')])) ''shipping_date''
       = Some (JStr ''999-01-01'')"
    by (rule early_year_document)
qed

end
